theory Spec2Isabelle
  imports Complex_Main "HOL-Library.Word"
begin

unbundle bit_operations_syntax

section \<open>Python floats\<close>

text \<open>
  A Python float is an IEEE 754 binary64 number. It is modelled by its value: \<open>Fin r\<close> for
  a finite one (the two zeros compare equal and are both \<open>Fin 0\<close>), the two infinities,
  and NaN. The result of an arithmetic operation is the exact result rounded to the nearest
  binary64 number, ties to even, with gradual underflow and overflow to infinity:
  \<open>round_double\<close>. A Python int of magnitude up to \<open>2 ^ 53\<close> (the default configuration
  values, the \<open>1000 * 1\<close> of \<open>start_timer\<close>, the \<open>0\<close> that \<open>move\<close> stores) behaves in every
  operation used here as the float of the same value, and is modelled by it.
\<close>

datatype error = ZeroDivisionError | IndexError | ValueError | OverflowError | AttributeError

datatype pyfloat = Fin real | PInf | NInf | NaN

function bit_length :: "int \<Rightarrow> int" where
  "bit_length n = (if n \<le> 0 then 0 else 1 + bit_length (n div 2))"
  by pat_completeness auto
termination
  by (relation "measure nat") auto

declare bit_length.simps [simp del]

definition pow2 :: "int \<Rightarrow> real" where
  "pow2 e = (if 0 \<le> e then 2 ^ nat e else 1 / 2 ^ nat (- e))"

text \<open>For \<open>a > 0\<close>, the exponent \<open>e\<close> with \<open>2 ^ e \<le> a < 2 ^ (e + 1)\<close>.\<close>

definition floor_log2 :: "real \<Rightarrow> int" where
  "floor_log2 a =
     (if 1 \<le> a then bit_length \<lfloor>a\<rfloor> - 1
      else - bit_length (\<lceil>1 / a\<rceil> - 1))"

definition round_half_even :: "real \<Rightarrow> int" where
  "round_half_even t =
     (let n = \<lfloor>t\<rfloor>; d = t - of_int n
      in if d < 1 / 2 then n else if 1 / 2 < d then n + 1 else if even n then n else n + 1)"

text \<open>
  The binary64 number nearest to \<open>x\<close>: 53 significant bits, exponents from \<open>-1022\<close>
  (below it the spacing stays \<open>2 ^ -1074\<close>) to \<open>1023\<close>.
\<close>

definition round_double :: "real \<Rightarrow> pyfloat" where
  "round_double x =
     (if x = 0 then Fin 0
      else let a = \<bar>x\<bar>;
               e = max (floor_log2 a) (- 1022);
               q = pow2 (e - 52);
               r = of_int (round_half_even (a / q)) * q
           in if pow2 1024 \<le> r then (if 0 < x then PInf else NInf)
              else Fin (if 0 < x then r else - r))"

text \<open>The float a decimal literal such as \<open>0.004\<close> denotes.\<close>

definition float_literal :: "real \<Rightarrow> pyfloat" where
  "float_literal x = round_double x"

text \<open>Rounding toward zero.\<close>

definition trunc :: "real \<Rightarrow> int" where
  "trunc r = (if r < 0 then \<lceil>r\<rceil> else \<lfloor>r\<rfloor>)"

text \<open>\<open>x * y\<close> on floats: it never raises.\<close>

fun float_mul :: "pyfloat \<Rightarrow> pyfloat \<Rightarrow> pyfloat" where
  "float_mul NaN y = NaN"
| "float_mul x NaN = NaN"
| "float_mul (Fin a) (Fin b) = round_double (a * b)"
| "float_mul (Fin a) PInf = (if a = 0 then NaN else if 0 < a then PInf else NInf)"
| "float_mul (Fin a) NInf = (if a = 0 then NaN else if 0 < a then NInf else PInf)"
| "float_mul PInf (Fin b) = (if b = 0 then NaN else if 0 < b then PInf else NInf)"
| "float_mul NInf (Fin b) = (if b = 0 then NaN else if 0 < b then NInf else PInf)"
| "float_mul PInf PInf = PInf"
| "float_mul PInf NInf = NInf"
| "float_mul NInf PInf = NInf"
| "float_mul NInf NInf = PInf"

text \<open>\<open>x / y\<close> on floats: \<open>ZeroDivisionError\<close> for a zero divisor, whatever \<open>x\<close> is.\<close>

fun float_div :: "pyfloat \<Rightarrow> pyfloat \<Rightarrow> error + pyfloat" where
  "float_div x (Fin b) =
     (if b = 0 then Inl ZeroDivisionError
      else case x of
             Fin a \<Rightarrow> Inr (round_double (a / b))
           | PInf \<Rightarrow> Inr (if 0 < b then PInf else NInf)
           | NInf \<Rightarrow> Inr (if 0 < b then NInf else PInf)
           | NaN \<Rightarrow> Inr NaN)"
| "float_div x NaN = Inr NaN"
| "float_div (Fin a) y = Inr (Fin 0)"
| "float_div x y = Inr NaN"

text \<open>\<open>x < y\<close> and \<open>x == y\<close> on floats: false whenever NaN is involved.\<close>

fun float_lt :: "pyfloat \<Rightarrow> pyfloat \<Rightarrow> bool" where
  "float_lt NaN y = False"
| "float_lt x NaN = False"
| "float_lt (Fin a) (Fin b) = (a < b)"
| "float_lt x NInf = False"
| "float_lt PInf y = False"
| "float_lt x y = True"

fun float_eq :: "pyfloat \<Rightarrow> pyfloat \<Rightarrow> bool" where
  "float_eq NaN y = False"
| "float_eq x NaN = False"
| "float_eq x y = (x = y)"

text \<open>\<open>np.trunc\<close>: toward zero, infinities and NaN unchanged.\<close>

fun np_trunc :: "pyfloat \<Rightarrow> pyfloat" where
  "np_trunc (Fin r) = Fin (of_int (trunc r))"
| "np_trunc x = x"

text \<open>\<open>int(x)\<close> on a float.\<close>

fun py_int :: "pyfloat \<Rightarrow> error + int" where
  "py_int (Fin r) = Inr (trunc r)"
| "py_int NaN = Inl ValueError"
| "py_int x = Inl OverflowError"

section \<open>Analog stepper drive loop (logic/analog_steppers_logic.py)\<close>

text \<open>
  An axis identifier is the Python value stored in the \<open>axis\<close> configuration tuple:
  \<open>None\<close>, or a string.
\<close>

type_synonym axis_id = "string option"

text \<open>
  Everything the module does to the outside world, in the order it happens: calls on the
  single-shot timer (\<open>TimerStart ms\<close> is the call \<open>timer.start(ms)\<close>), calls on the
  stepper hardware, messages sent to \<open>log.error\<close>, and calls on the mutex
  \<open>threadlock\<close>.
\<close>

datatype event =
    TimerStart int
  | TimerStop
  | Frequency axis_id pyfloat
  | Voltage axis_id pyfloat
  | Steps axis_id pyfloat
  | Stop
  | LogError pyfloat
  | Lock
  | Unlock

record config =
  ui_frequency :: pyfloat
  hardware_frequency :: pyfloat
  hardware_voltage :: pyfloat
  axis :: "axis_id list"

text \<open>
  The mutable part of the object: \<open>_enabled\<close>, the timer (\<open>None\<close> when it is not
  running, otherwise the interval in milliseconds \<open>start\<close> was last called with), the
  list \<open>_last_value\<close>, and the events issued so far.
\<close>

record state =
  enabled :: bool
  timer :: "int option"
  last_value :: "pyfloat list"
  trace :: "event list"

text \<open>
  A method either returns (\<open>Inr\<close>, with the state it leaves) or raises (\<open>Inl\<close>, with the
  exception and the state the object is in when it is raised).
\<close>

type_synonym result = "(error \<times> state) + state"

definition final :: "result \<Rightarrow> state" where
  "final r = (case r of Inl (e, s) \<Rightarrow> s | Inr s \<Rightarrow> s)"

definition emit :: "event \<Rightarrow> state \<Rightarrow> state" where
  "emit e s = s\<lparr>trace := trace s @ [e]\<rparr>"

definition new_events :: "state \<Rightarrow> state \<Rightarrow> event list" where
  "new_events s s' = drop (length (trace s)) (trace s')"

text \<open>Python's \<open>if axis:\<close> is false for \<open>None\<close> and for the empty string.\<close>

definition truthy :: "axis_id \<Rightarrow> bool" where
  "truthy a = (case a of None \<Rightarrow> False | Some n \<Rightarrow> n \<noteq> [])"

text \<open>\<open>list.index\<close>: the position of the first occurrence.\<close>

fun index :: "'a list \<Rightarrow> 'a \<Rightarrow> nat option" where
  "index [] a = None"
| "index (x # xs) a = (if x = a then Some 0 else map_option Suc (index xs a))"

text \<open>The argument of \<open>timer.start\<close>: \<open>int(1000 * 1 / self._ui_frequency)\<close>.\<close>

definition timer_interval :: "config \<Rightarrow> error + int" where
  "timer_interval c =
     (case float_div (Fin (1000 * 1)) (ui_frequency c) of
        Inl e \<Rightarrow> Inl e
      | Inr q \<Rightarrow> py_int q)"

definition start_timer :: "config \<Rightarrow> state \<Rightarrow> result" where
  "start_timer c s =
     (case timer_interval c of
        Inl e \<Rightarrow> Inl (e, s)
      | Inr ms \<Rightarrow> Inr (emit (TimerStart ms) (s\<lparr>timer := Some ms\<rparr>)))"

definition move_axis :: "config \<Rightarrow> axis_id \<Rightarrow> pyfloat \<Rightarrow> state \<Rightarrow> result" where
  "move_axis c a analog s =
     (if float_eq analog (Fin 0) then Inr s
      else let s1 = (if float_lt analog (Fin (- 1)) \<or> float_lt (Fin 1) analog
                     then emit (LogError analog) s else s)
           in case float_div (hardware_frequency c) (ui_frequency c) of
                Inl e \<Rightarrow> Inl (e, s1)
              | Inr q \<Rightarrow> Inr (emit (Steps a (np_trunc (float_mul q analog))) s1))"

text \<open>
  The body of the \<open>for\<close> loop of \<open>move\<close> for one configured axis, in its two halves:
  lines 105 and 106 look the slot up and read it, lines 107 and 108 store \<open>0\<close> in the slot
  and call \<open>move_axis\<close> with the value read.
\<close>

definition read_last_value :: "config \<Rightarrow> axis_id \<Rightarrow> state \<Rightarrow> (error \<times> state) + (nat \<times> pyfloat)" where
  "read_last_value c a s =
     (case index (axis c) a of
        None \<Rightarrow> Inl (ValueError, s)
      | Some i \<Rightarrow>
          if i < length (last_value s) then Inr (i, last_value s ! i)
          else Inl (IndexError, s))"

definition reset_and_move :: "config \<Rightarrow> axis_id \<Rightarrow> nat \<Rightarrow> pyfloat \<Rightarrow> state \<Rightarrow> result" where
  "reset_and_move c a i v s =
     (if i < length (last_value s)
      then move_axis c a v (s\<lparr>last_value := (last_value s)[i := Fin 0]\<rparr>)
      else Inl (IndexError, s))"

text \<open>The \<open>for\<close> loop of \<open>move\<close>, over the axes still to visit.\<close>

fun move_axes :: "config \<Rightarrow> axis_id list \<Rightarrow> state \<Rightarrow> result" where
  "move_axes c [] s = Inr s"
| "move_axes c (a # as) s =
     (if truthy a then
        (case read_last_value c a s of
           Inl e \<Rightarrow> Inl e
         | Inr (i, v) \<Rightarrow>
             (case reset_and_move c a i v s of
                Inl e \<Rightarrow> Inl e
              | Inr s2 \<Rightarrow> move_axes c as s2))
      else move_axes c as s)"

definition move :: "config \<Rightarrow> state \<Rightarrow> result" where
  "move c s = move_axes c (axis c) s"

fun setup_axes :: "config \<Rightarrow> axis_id list \<Rightarrow> state \<Rightarrow> state" where
  "setup_axes c [] s = s"
| "setup_axes c (a # as) s =
     (if truthy a then
        setup_axes c as
          (emit (Voltage a (hardware_voltage c)) (emit (Frequency a (hardware_frequency c)) s))
      else setup_axes c as s)"

definition setup_axis :: "config \<Rightarrow> state \<Rightarrow> state" where
  "setup_axis c s = setup_axes c (axis c) s"

definition startLoop :: "config \<Rightarrow> state \<Rightarrow> result" where
  "startLoop c s = start_timer c (s\<lparr>enabled := True\<rparr>)"

definition stopLoop :: "state \<Rightarrow> state" where
  "stopLoop s = emit Stop ((emit TimerStop (s\<lparr>timer := None\<rparr>))\<lparr>enabled := False\<rparr>)"

definition loop :: "config \<Rightarrow> state \<Rightarrow> result" where
  "loop c s =
     (if enabled s then
        (case start_timer c s of
           Inl e \<Rightarrow> Inl e
         | Inr s1 \<Rightarrow> move c s1)
      else Inr s)"

text \<open>
  \<open>on_activate\<close> creates a fresh single-shot timer (not running), configures the axes and
  starts the loop.
\<close>

definition on_activate :: "config \<Rightarrow> state \<Rightarrow> result" where
  "on_activate c s = startLoop c (setup_axis c (s\<lparr>timer := None\<rparr>))"

text \<open>
  The class has no setter for the buffered command: an input source assigns
  \<open>_last_value[i] = v\<close>. The assignment raises \<open>IndexError\<close> out of range.
\<close>

definition set_last_value :: "nat \<Rightarrow> pyfloat \<Rightarrow> state \<Rightarrow> result" where
  "set_last_value i v s =
     (if i < length (last_value s) then Inr (s\<lparr>last_value := (last_value s)[i := v]\<rparr>)
      else Inl (IndexError, s))"

text \<open>The class attributes before activation, and the default configuration.\<close>

definition init_state :: state where
  "init_state = \<lparr>enabled = False, timer = None, last_value = [Fin 0, Fin 0, Fin 0], trace = []\<rparr>"

definition default_config :: config where
  "default_config =
     \<lparr>ui_frequency = Fin 10, hardware_frequency = Fin 1000, hardware_voltage = Fin 40,
      axis = [Some ''x'', Some ''y'', None]\<rparr>"

text \<open>
  What can happen to an activated module, one call after the other. A call that raises
  leaves the object in the state it had when the exception was raised, and the next call
  goes on from there.
\<close>

datatype op = Write nat pyfloat | Tick | StartLoop | StopLoop | Activate

fun exec_op :: "config \<Rightarrow> op \<Rightarrow> state \<Rightarrow> result" where
  "exec_op c (Write i v) s = set_last_value i v s"
| "exec_op c Tick s = loop c s"
| "exec_op c StartLoop s = startLoop c s"
| "exec_op c StopLoop s = Inr (stopLoop s)"
| "exec_op c Activate s = on_activate c s"

fun run :: "config \<Rightarrow> op list \<Rightarrow> state \<Rightarrow> state" where
  "run c [] s = s"
| "run c (x # xs) s = run c xs (final (exec_op c x s))"

text \<open>The step counts sent to one axis, and the axis a hardware call is addressed to.\<close>

fun steps_sent :: "axis_id \<Rightarrow> event list \<Rightarrow> pyfloat list" where
  "steps_sent a [] = []"
| "steps_sent a (Steps b n # es) = (if a = b then n # steps_sent a es else steps_sent a es)"
| "steps_sent a (e # es) = steps_sent a es"

fun device_axis :: "event \<Rightarrow> axis_id option" where
  "device_axis (Frequency a f) = Some a"
| "device_axis (Voltage a v) = Some a"
| "device_axis (Steps a n) = Some a"
| "device_axis e = None"

fun is_steps :: "event \<Rightarrow> bool" where
  "is_steps (Steps a n) = True"
| "is_steps e = False"

fun is_timer_start :: "event \<Rightarrow> bool" where
  "is_timer_start (TimerStart ms) = True"
| "is_timer_start e = False"

fun is_timer_call :: "event \<Rightarrow> bool" where
  "is_timer_call (TimerStart ms) = True"
| "is_timer_call TimerStop = True"
| "is_timer_call e = False"

fun is_lock_call :: "event \<Rightarrow> bool" where
  "is_lock_call Lock = True"
| "is_lock_call Unlock = True"
| "is_lock_call e = False"

text \<open>
  Notions used to state the properties: a value outside \<open>[-1, 1]\<close> as \<open>move_axis\<close>
  tests it, the events one call of \<open>move_axis\<close> issues when the quotient of the two
  frequencies is \<open>q\<close>, the events that can come out of \<open>move\<close> and of \<open>setup_axis\<close>,
  hardware calls addressed to a configured axis, the module after activation with the
  default configuration, and the number of \<open>stop\<close> calls on the hardware.
\<close>

definition out_of_range :: "pyfloat \<Rightarrow> bool" where
  "out_of_range v = (float_lt v (Fin (- 1)) \<or> float_lt (Fin 1) v)"

definition axis_events :: "pyfloat \<Rightarrow> axis_id \<Rightarrow> pyfloat \<Rightarrow> event list" where
  "axis_events q a v =
     (if float_eq v (Fin 0) then []
      else (if out_of_range v then [LogError v] else [])
           @ [Steps a (np_trunc (float_mul q v))])"

definition move_event :: "config \<Rightarrow> event \<Rightarrow> bool" where
  "move_event c e =
     (case e of LogError v \<Rightarrow> out_of_range v
      | Steps a n \<Rightarrow> truthy a \<and> a \<in> set (axis c)
      | _ \<Rightarrow> False)"

definition setup_event :: "config \<Rightarrow> event \<Rightarrow> bool" where
  "setup_event c e =
     (case e of Frequency a f \<Rightarrow> truthy a \<and> a \<in> set (axis c)
      | Voltage a v \<Rightarrow> truthy a \<and> a \<in> set (axis c)
      | _ \<Rightarrow> False)"

definition addressed_ok :: "config \<Rightarrow> event \<Rightarrow> bool" where
  "addressed_ok c e =
     (\<not> is_lock_call e
      \<and> (case device_axis e of None \<Rightarrow> True | Some a \<Rightarrow> truthy a \<and> a \<in> set (axis c)))"

definition active_state :: state where
  "active_state = final (on_activate default_config init_state)"

text \<open>The activated module with \<open>0.5\<close> pending on axis \<open>'x'\<close>.\<close>

definition half_pending :: state where
  "half_pending = final (set_last_value 0 (Fin (1 / 2)) active_state)"

text \<open>
  A configuration whose \<open>ui_frequency\<close> is the positive float \<open>2 ** -1020\<close>, and one
  whose \<open>ui_frequency\<close> is \<open>0\<close>.
\<close>

definition tiny_frequency :: pyfloat where
  "tiny_frequency = Fin (1 / 2 ^ 1020)"

definition tiny_config :: config where
  "tiny_config = default_config\<lparr>ui_frequency := tiny_frequency\<rparr>"

definition zero_config :: config where
  "zero_config = default_config\<lparr>ui_frequency := Fin 0\<rparr>"

text \<open>The hardware calls \<open>setup_axis\<close> makes, axis after axis.\<close>

fun setup_calls :: "config \<Rightarrow> axis_id list \<Rightarrow> event list" where
  "setup_calls c [] = []"
| "setup_calls c (a # as) =
     (if truthy a then Frequency a (hardware_frequency c) # Voltage a (hardware_voltage c) # setup_calls c as
      else setup_calls c as)"

fun stop_calls :: "event list \<Rightarrow> nat" where
  "stop_calls [] = 0"
| "stop_calls (Stop # es) = Suc (stop_calls es)"
| "stop_calls (e # es) = stop_calls es"

section \<open>XInput joystick reader (hardware/joystick/xinput.py)\<close>

text \<open>The ctypes structures, with the fields their \<open>_fields_\<close> declare.\<close>

record XINPUT_GAMEPAD =
  wButtons :: "16 word"
  bLeftTrigger :: "8 word"
  bRightTrigger :: "8 word"
  sThumbLX :: "16 word"
  sThumbLY :: "16 word"
  sThumbRX :: "16 word"
  sThumbRY :: "16 word"

record XINPUT_STATE =
  dwPacketNumber :: "32 word"
  Gamepad :: XINPUT_GAMEPAD

text \<open>
  Reading an attribute of an \<open>XINPUT_STATE\<close> instance by name: a field of simple type
  reads as a plain Python int, the nested structure as a structure instance, and any name
  that is not a field raises \<open>AttributeError\<close>.
\<close>

datatype field_value = IntValue int | GamepadValue XINPUT_GAMEPAD

definition state_attr :: "XINPUT_STATE \<Rightarrow> string \<Rightarrow> error + field_value" where
  "state_attr st name =
     (if name = ''dwPacketNumber'' then Inr (IntValue (uint (dwPacketNumber st)))
      else if name = ''Gamepad'' then Inr (GamepadValue (Gamepad st))
      else Inl AttributeError)"

text \<open>
  \<open>.value\<close> on what such a read returns: neither a Python int nor a structure instance
  has that attribute.
\<close>

fun value_attr :: "field_value \<Rightarrow> error + int" where
  "value_attr (IntValue n) = Inl AttributeError"
| "value_attr (GamepadValue g) = Inl AttributeError"

text \<open>The expression \<open>state.NAME.value\<close>.\<close>

definition state_field_value :: "XINPUT_STATE \<Rightarrow> string \<Rightarrow> error + int" where
  "state_field_value st name =
     (case state_attr st name of Inl e \<Rightarrow> Inl e | Inr v \<Rightarrow> value_attr v)"

record joystick_axis =
  left_vertical :: pyfloat
  left_horizontal :: pyfloat
  right_vertical :: pyfloat
  right_horizontal :: pyfloat
  left_trigger :: pyfloat
  right_trigger :: pyfloat

record joystick_buttons =
  left_up :: bool
  left_down :: bool
  left_left :: bool
  left_right :: bool
  left_joystick :: bool
  right_up :: bool
  right_down :: bool
  right_left :: bool
  right_right :: bool
  right_joystick :: bool
  middle_left :: bool
  middle_right :: bool
  left_shoulder :: bool
  right_shoulder :: bool

record joystick_state =
  js_axis :: joystick_axis
  js_buttons :: joystick_buttons

definition scales_maximum_joystick :: real where
  "scales_maximum_joystick = 32767"

definition scales_maximum_trigger :: real where
  "scales_maximum_trigger = 255"

text \<open>\<open>n / scale\<close>, an int divided by a nonzero float constant.\<close>

definition scaled :: "int \<Rightarrow> real \<Rightarrow> pyfloat" where
  "scaled n scale = round_double (of_int n / scale)"

text \<open>\<open>bool(value_buttons & bitmasks[...])\<close>\<close>

definition button :: "int \<Rightarrow> int \<Rightarrow> bool" where
  "button value_buttons bitmask = (value_buttons AND bitmask \<noteq> 0)"

text \<open>
  \<open>get_state\<close> on the structure \<open>XInputGetState\<close> has filled in. The reads are made in
  the order of the source: \<open>state.wButtons.value\<close> at line 103, then the entries of the
  \<open>axis\<close> dictionary, top to bottom.
\<close>

definition get_state :: "XINPUT_STATE \<Rightarrow> error + joystick_state" where
  "get_state st =
     (case state_field_value st ''wButtons'' of Inl e \<Rightarrow> Inl e | Inr value_buttons \<Rightarrow>
      case state_field_value st ''sThumbLX'' of Inl e \<Rightarrow> Inl e | Inr lx \<Rightarrow>
      case state_field_value st ''sThumbLY'' of Inl e \<Rightarrow> Inl e | Inr ly \<Rightarrow>
      case state_field_value st ''sThumbRY'' of Inl e \<Rightarrow> Inl e | Inr ry \<Rightarrow>
      case state_field_value st ''sThumbRX'' of Inl e \<Rightarrow> Inl e | Inr rx \<Rightarrow>
      case state_field_value st ''bLeftTrigger'' of Inl e \<Rightarrow> Inl e | Inr lt \<Rightarrow>
      case state_field_value st ''bRightTrigger'' of Inl e \<Rightarrow> Inl e | Inr rt \<Rightarrow>
      Inr \<lparr>js_axis =
            \<lparr>left_vertical = scaled lx scales_maximum_joystick,
             left_horizontal = scaled ly scales_maximum_joystick,
             right_vertical = scaled ry scales_maximum_joystick,
             right_horizontal = scaled rx scales_maximum_joystick,
             left_trigger = scaled lt scales_maximum_trigger,
             right_trigger = scaled rt scales_maximum_trigger\<rparr>,
          js_buttons =
            \<lparr>left_up = button value_buttons 0x0001,
             left_down = button value_buttons 0x0002,
             left_left = button value_buttons 0x0004,
             left_right = button value_buttons 0x0008,
             left_joystick = button value_buttons 0x0040,
             right_up = button value_buttons 0x8000,
             right_down = button value_buttons 0x1000,
             right_left = button value_buttons 0x4000,
             right_right = button value_buttons 0x2000,
             right_joystick = button value_buttons 0x0080,
             middle_left = button value_buttons 0x0020,
             middle_right = button value_buttons 0x0010,
             left_shoulder = button value_buttons 0x0100,
             right_shoulder = button value_buttons 0x0200\<rparr>\<rparr>)"

section \<open>Evaluating float arithmetic\<close>

declare float_mul.simps [simp del]
declare float_div.simps [simp del]

lemma round_double_eval:
  assumes "x \<noteq> 0" and "floor_log2 \<bar>x\<bar> = e0" and "max e0 (- 1022) = e"
    and "round_half_even (\<bar>x\<bar> / pow2 (e - 52)) = n"
    and "of_int n * pow2 (e - 52) = r" and "r < pow2 1024"
  shows "round_double x = Fin (if 0 < x then r else - r)"
  unfolding round_double_def Let_def assms(2) assms(3) assms(4) assms(5)
  using assms(1) assms(6) by simp

lemma round_double_overflow:
  assumes "x \<noteq> 0" and "floor_log2 \<bar>x\<bar> = e0" and "max e0 (- 1022) = e"
    and "round_half_even (\<bar>x\<bar> / pow2 (e - 52)) = n"
    and "of_int n * pow2 (e - 52) = r" and "pow2 1024 \<le> r"
  shows "round_double x = (if 0 < x then PInf else NInf)"
  unfolding round_double_def Let_def assms(2) assms(3) assms(4) assms(5)
  using assms(1) assms(6) by simp

lemma float_div_Fin:
  "b \<noteq> 0 \<Longrightarrow> float_div (Fin a) (Fin b) = Inr (round_double (a / b))"
  by (simp add: float_div.simps)

lemma float_div_zero: "float_div x (Fin 0) = Inl ZeroDivisionError"
  by (simp add: float_div.simps)

lemma float_div_Inl: "float_div x y = Inl e \<Longrightarrow> y = Fin 0 \<and> e = ZeroDivisionError"
  by (cases y; cases x) (auto simp add: float_div.simps split: if_splits)

lemma float_div_Inr: "y \<noteq> Fin 0 \<Longrightarrow> \<exists>q. float_div x y = Inr q"
  by (cases "float_div x y") (auto dest: float_div_Inl)

lemma float_eq_zero: "float_eq v (Fin 0) = (v = Fin 0)"
  by (cases v) simp_all

lemma div_1000_10: "float_div (Fin 1000) (Fin 10) = Inr (Fin 100)"
proof -
  have "round_double (1000 / 10) = Fin (if 0 < (1000 / 10 :: real) then 100 else - 100)"
  proof (rule round_double_eval [where ?e0.0 = 6 and e = 6 and n = "100 * 2 ^ 46"])
    show "floor_log2 \<bar>1000 / 10\<bar> = 6" by (simp add: floor_log2_def bit_length.simps)
    show "round_half_even (\<bar>1000 / 10\<bar> / pow2 (6 - 52)) = 100 * 2 ^ 46"
      by (simp add: round_half_even_def pow2_def Let_def)
    show "real_of_int (100 * 2 ^ 46) * pow2 (6 - 52) = 100" by (simp add: pow2_def)
    show "(100::real) < pow2 1024" by (simp add: pow2_def)
  qed simp_all
  then show ?thesis by (simp add: float_div_Fin)
qed

lemma mul_100_half: "float_mul (Fin 100) (Fin (1 / 2)) = Fin 50"
proof -
  have "round_double (100 * (1 / 2)) = Fin (if 0 < (100 * (1 / 2) :: real) then 50 else - 50)"
  proof (rule round_double_eval [where ?e0.0 = 5 and e = 5 and n = "50 * 2 ^ 47"])
    show "floor_log2 \<bar>100 * (1 / 2)\<bar> = 5" by (simp add: floor_log2_def bit_length.simps)
    show "round_half_even (\<bar>100 * (1 / 2)\<bar> / pow2 (5 - 52)) = 50 * 2 ^ 47"
      by (simp add: round_half_even_def pow2_def Let_def)
    show "real_of_int (50 * 2 ^ 47) * pow2 (5 - 52) = 50" by (simp add: pow2_def)
    show "(50::real) < pow2 1024" by (simp add: pow2_def)
  qed simp_all
  then show ?thesis by (simp add: float_mul.simps)
qed

lemma mul_100_one: "float_mul (Fin 100) (Fin 1) = Fin 100"
proof -
  have "round_double (100 * 1) = Fin (if 0 < (100 * 1 :: real) then 100 else - 100)"
  proof (rule round_double_eval [where ?e0.0 = 6 and e = 6 and n = "100 * 2 ^ 46"])
    show "floor_log2 \<bar>100 * 1\<bar> = 6" by (simp add: floor_log2_def bit_length.simps)
    show "round_half_even (\<bar>100 * 1\<bar> / pow2 (6 - 52)) = 100 * 2 ^ 46"
      by (simp add: round_half_even_def pow2_def Let_def)
    show "real_of_int (100 * 2 ^ 46) * pow2 (6 - 52) = 100" by (simp add: pow2_def)
    show "(100::real) < pow2 1024" by (simp add: pow2_def)
  qed simp_all
  then show ?thesis by (simp add: float_mul.simps)
qed

lemma mul_100_three_halves: "float_mul (Fin 100) (Fin (3 / 2)) = Fin 150"
proof -
  have "round_double (100 * (3 / 2)) = Fin (if 0 < (100 * (3 / 2) :: real) then 150 else - 150)"
  proof (rule round_double_eval [where ?e0.0 = 7 and e = 7 and n = "150 * 2 ^ 45"])
    show "floor_log2 \<bar>100 * (3 / 2)\<bar> = 7" by (simp add: floor_log2_def bit_length.simps)
    show "round_half_even (\<bar>100 * (3 / 2)\<bar> / pow2 (7 - 52)) = 150 * 2 ^ 45"
      by (simp add: round_half_even_def pow2_def Let_def)
    show "real_of_int (150 * 2 ^ 45) * pow2 (7 - 52) = 150" by (simp add: pow2_def)
    show "(150::real) < pow2 1024" by (simp add: pow2_def)
  qed simp_all
  then show ?thesis by (simp add: float_mul.simps)
qed

text \<open>The floats \<open>0.99\<close> and \<open>0.004\<close>, and their products with \<open>100.0\<close>.\<close>

lemma literal_099: "float_literal (99 / 100) = Fin (4458563631096791 / 4503599627370496)"
proof -
  have "round_double (99 / 100) =
        Fin (if 0 < (99 / 100 :: real) then 4458563631096791 / 4503599627370496
             else - (4458563631096791 / 4503599627370496))"
  proof (rule round_double_eval [where ?e0.0 = "- 1" and e = "- 1" and n = 8917127262193582])
    show "floor_log2 \<bar>99 / 100\<bar> = - 1" by (simp add: floor_log2_def bit_length.simps)
    show "round_half_even (\<bar>99 / 100\<bar> / pow2 (- 1 - 52)) = 8917127262193582"
      by (simp add: round_half_even_def pow2_def Let_def)
    show "real_of_int 8917127262193582 * pow2 (- 1 - 52) = 4458563631096791 / 4503599627370496"
      by (simp add: pow2_def)
    show "(4458563631096791 / 4503599627370496 :: real) < pow2 1024" by (simp add: pow2_def)
  qed simp_all
  then show ?thesis by (simp add: float_literal_def)
qed

lemma mul_100_099: "float_mul (Fin 100) (Fin (4458563631096791 / 4503599627370496)) = Fin 99"
proof -
  have "round_double (100 * (4458563631096791 / 4503599627370496)) =
        Fin (if 0 < (100 * (4458563631096791 / 4503599627370496) :: real) then 99 else - 99)"
  proof (rule round_double_eval [where ?e0.0 = 6 and e = 6 and n = "99 * 2 ^ 46"])
    show "floor_log2 \<bar>100 * (4458563631096791 / 4503599627370496)\<bar> = 6"
      by (simp add: floor_log2_def bit_length.simps)
    show "round_half_even (\<bar>100 * (4458563631096791 / 4503599627370496)\<bar> / pow2 (6 - 52)) = 99 * 2 ^ 46"
      by (simp add: round_half_even_def pow2_def Let_def)
    show "real_of_int (99 * 2 ^ 46) * pow2 (6 - 52) = 99" by (simp add: pow2_def)
    show "(99::real) < pow2 1024" by (simp add: pow2_def)
  qed simp_all
  then show ?thesis by (simp add: float_mul.simps)
qed



text \<open>A positive frequency so small that \<open>1000 / ui_frequency\<close> overflows.\<close>

lemma div_1000_tiny: "float_div (Fin 1000) tiny_frequency = Inr PInf"
proof -
  have "round_double (1000 / (1 / 2 ^ 1020)) =
        (if 0 < (1000 / (1 / 2 ^ 1020) :: real) then PInf else NInf)"
  proof (rule round_double_overflow
      [where ?e0.0 = 1029 and e = 1029 and n = "1000 * 2 ^ 43" and r = "1000 * 2 ^ 1020"])
    show "floor_log2 \<bar>1000 / (1 / 2 ^ 1020)\<bar> = 1029"
      by (simp add: floor_log2_def bit_length.simps)
    show "round_half_even (\<bar>1000 / (1 / 2 ^ 1020)\<bar> / pow2 (1029 - 52)) = 1000 * 2 ^ 43"
      by (simp add: round_half_even_def pow2_def Let_def)
    show "real_of_int (1000 * 2 ^ 43) * pow2 (1029 - 52) = 1000 * 2 ^ 1020" by (simp add: pow2_def)
    show "pow2 1024 \<le> (1000 * 2 ^ 1020 :: real)" by (simp add: pow2_def)
  qed simp_all
  then show ?thesis unfolding tiny_frequency_def by (simp add: float_div_Fin)
qed

section \<open>Properties of the drive loop\<close>

lemma index_Some: "index xs a = Some i \<Longrightarrow> i < length xs \<and> xs ! i = a"
  by (induction xs arbitrary: i) (auto split: if_splits)

lemma index_mem: "a \<in> set xs \<Longrightarrow> \<exists>i. index xs a = Some i"
  by (induction xs) auto

lemma index_inj: "index xs a = Some i \<Longrightarrow> index xs b = Some i \<Longrightarrow> a = b"
  by (metis index_Some)

lemma index_truthy_mem: "index xs a = Some i \<Longrightarrow> a \<in> set xs"
  by (induction xs arbitrary: i) (auto split: if_splits)

lemma list_all_weaken: "list_all P xs \<Longrightarrow> (\<And>x. P x \<Longrightarrow> Q x) \<Longrightarrow> list_all Q xs"
  by (induction xs) auto

lemma timer_interval_div:
  assumes "timer_interval c = Inr ms"
  shows "\<exists>q. float_div (hardware_frequency c) (ui_frequency c) = Inr q"
proof -
  have "ui_frequency c \<noteq> Fin 0"
    using assms by (auto simp add: timer_interval_def float_div_zero)
  then show ?thesis by (rule float_div_Inr)
qed

lemma timer_interval_cases:
  "(\<exists>ms. timer_interval c = Inr ms) \<or> (\<exists>e. timer_interval c = Inl e)"
  by (cases "timer_interval c") auto

lemma start_timer_Inr:
  "timer_interval c = Inr ms \<Longrightarrow>
   start_timer c s = Inr (s\<lparr>timer := Some ms, trace := trace s @ [TimerStart ms]\<rparr>)"
  by (simp add: start_timer_def emit_def)

lemma start_timer_Inl: "timer_interval c = Inl e \<Longrightarrow> start_timer c s = Inl (e, s)"
  by (simp add: start_timer_def)

lemma move_axis_ok:
  "float_div (hardware_frequency c) (ui_frequency c) = Inr q \<Longrightarrow>
   move_axis c a v s = Inr (s\<lparr>trace := trace s @ axis_events q a v\<rparr>)"
  by (simp add: move_axis_def axis_events_def out_of_range_def emit_def Let_def)

lemma move_axes_step:
  assumes "float_div (hardware_frequency c) (ui_frequency c) = Inr q"
    and "truthy a" and "index (axis c) a = Some j" and "j < length (last_value s)"
  shows "move_axes c (a # as) s =
         move_axes c as (s\<lparr>last_value := (last_value s)[j := Fin 0],
                           trace := trace s @ axis_events q a (last_value s ! j)\<rparr>)"
  using assms by (simp add: read_last_value_def reset_and_move_def move_axis_ok)

lemma steps_sent_append: "steps_sent a (xs @ ys) = steps_sent a xs @ steps_sent a ys"
  by (induction a xs rule: steps_sent.induct) auto

lemma steps_sent_axis_events:
  "steps_sent a (axis_events q b v) =
     (if a = b \<and> v \<noteq> Fin 0 then [np_trunc (float_mul q v)] else [])"
  by (simp add: axis_events_def float_eq_zero)

lemma move_axes_idle:
  assumes "float_div (hardware_frequency c) (ui_frequency c) = Inr q"
    and "length (axis c) \<le> length (last_value s)"
    and "set as \<subseteq> set (axis c)" and "index (axis c) a = Some i"
    and "a \<notin> set as \<or> last_value s ! i = Fin 0"
  shows "\<exists>s' evs. move_axes c as s = Inr s' \<and> trace s' = trace s @ evs
           \<and> last_value s' ! i = last_value s ! i
           \<and> length (last_value s') = length (last_value s)
           \<and> enabled s' = enabled s \<and> timer s' = timer s
           \<and> steps_sent a evs = []"
  using assms
proof (induction as arbitrary: s)
  case Nil
  then show ?case by simp
next
  case (Cons b bs)
  show ?case
  proof (cases "truthy b")
    case False
    then show ?thesis using Cons.IH [of s] Cons.prems by auto
  next
    case True
    from Cons.prems obtain j where j: "index (axis c) b = Some j"
      using index_mem [of b "axis c"] by auto
    then have jlt: "j < length (last_value s)"
      using index_Some [OF j] Cons.prems(2) by simp
    let ?s2 = "s\<lparr>last_value := (last_value s)[j := Fin 0],
                  trace := trace s @ axis_events q b (last_value s ! j)\<rparr>"
    have step: "move_axes c (b # bs) s = move_axes c bs ?s2"
      using move_axes_step [OF Cons.prems(1) True j jlt] .
    have keep: "last_value ?s2 ! i = last_value s ! i"
    proof (cases "j = i")
      case True
      then have "b = a" using index_inj [OF j] Cons.prems(4) by simp
      then have "last_value s ! i = Fin 0" using Cons.prems(5) by simp
      then show ?thesis using True jlt by simp
    next
      case False
      then show ?thesis by simp
    qed
    have quiet: "steps_sent a (axis_events q b (last_value s ! j)) = []"
    proof (cases "a = b")
      case True
      then have "j = i" using j Cons.prems(4) by simp
      moreover have "last_value s ! i = Fin 0" using True Cons.prems(5) by simp
      ultimately show ?thesis by (simp add: steps_sent_axis_events)
    next
      case False
      then show ?thesis by (simp add: steps_sent_axis_events)
    qed
    have "\<exists>s' evs. move_axes c bs ?s2 = Inr s' \<and> trace s' = trace ?s2 @ evs
           \<and> last_value s' ! i = last_value ?s2 ! i
           \<and> length (last_value s') = length (last_value ?s2)
           \<and> enabled s' = enabled ?s2 \<and> timer s' = timer ?s2
           \<and> steps_sent a evs = []"
    proof (rule Cons.IH)
      show "float_div (hardware_frequency c) (ui_frequency c) = Inr q" by (rule Cons.prems(1))
      show "length (axis c) \<le> length (last_value ?s2)" using Cons.prems(2) by simp
      show "set bs \<subseteq> set (axis c)" using Cons.prems(3) by simp
      show "index (axis c) a = Some i" by (rule Cons.prems(4))
      show "a \<notin> set bs \<or> last_value ?s2 ! i = Fin 0" using Cons.prems(5) keep by auto
    qed
    then obtain s' evs where r: "move_axes c bs ?s2 = Inr s'" "trace s' = trace ?s2 @ evs"
        "last_value s' ! i = last_value ?s2 ! i" "length (last_value s') = length (last_value ?s2)"
        "enabled s' = enabled ?s2" "timer s' = timer ?s2" "steps_sent a evs = []"
      by blast
    show ?thesis
      apply (rule exI [of _ s'])
      apply (rule exI [of _ "axis_events q b (last_value s ! j) @ evs"])
      using r step keep quiet by (simp add: steps_sent_append)
  qed
qed

lemma move_axes_axis:
  assumes "float_div (hardware_frequency c) (ui_frequency c) = Inr q"
    and "length (axis c) \<le> length (last_value s)"
    and "set as \<subseteq> set (axis c)" and "index (axis c) a = Some i" and "truthy a"
    and "a \<in> set as"
  shows "\<exists>s' evs. move_axes c as s = Inr s' \<and> trace s' = trace s @ evs
           \<and> last_value s' ! i = Fin 0
           \<and> length (last_value s') = length (last_value s)
           \<and> enabled s' = enabled s \<and> timer s' = timer s
           \<and> steps_sent a evs = steps_sent a (axis_events q a (last_value s ! i))
           \<and> set (axis_events q a (last_value s ! i)) \<subseteq> set evs"
  using assms
proof (induction as arbitrary: s)
  case Nil
  then show ?case by simp
next
  case (Cons b bs)
  have ilt: "i < length (last_value s)"
    using index_Some [OF Cons.prems(4)] Cons.prems(2) by simp
  show ?case
  proof (cases "b = a")
    case True
    let ?s2 = "s\<lparr>last_value := (last_value s)[i := Fin 0],
                  trace := trace s @ axis_events q a (last_value s ! i)\<rparr>"
    have step: "move_axes c (b # bs) s = move_axes c bs ?s2"
      using move_axes_step [OF Cons.prems(1) Cons.prems(5) Cons.prems(4) ilt] True by simp
    have "\<exists>s' evs. move_axes c bs ?s2 = Inr s' \<and> trace s' = trace ?s2 @ evs
           \<and> last_value s' ! i = last_value ?s2 ! i
           \<and> length (last_value s') = length (last_value ?s2)
           \<and> enabled s' = enabled ?s2 \<and> timer s' = timer ?s2
           \<and> steps_sent a evs = []"
    proof (rule move_axes_idle)
      show "float_div (hardware_frequency c) (ui_frequency c) = Inr q" by (rule Cons.prems(1))
      show "length (axis c) \<le> length (last_value ?s2)" using Cons.prems(2) by simp
      show "set bs \<subseteq> set (axis c)" using Cons.prems(3) by simp
      show "index (axis c) a = Some i" by (rule Cons.prems(4))
      show "a \<notin> set bs \<or> last_value ?s2 ! i = Fin 0" using ilt by simp
    qed
    then obtain s' evs where r: "move_axes c bs ?s2 = Inr s'" "trace s' = trace ?s2 @ evs"
        "last_value s' ! i = last_value ?s2 ! i" "length (last_value s') = length (last_value ?s2)"
        "enabled s' = enabled ?s2" "timer s' = timer ?s2" "steps_sent a evs = []"
      by blast
    show ?thesis
      apply (rule exI [of _ s'])
      apply (rule exI [of _ "axis_events q a (last_value s ! i) @ evs"])
      using r step ilt by (simp add: steps_sent_append)
  next
    case False
    then have mem: "a \<in> set bs" using Cons.prems(6) by simp
    have sub: "set bs \<subseteq> set (axis c)" using Cons.prems(3) by simp
    show ?thesis
    proof (cases "truthy b")
      case nt: False
      then show ?thesis
        using Cons.IH [OF Cons.prems(1) Cons.prems(2) sub Cons.prems(4) Cons.prems(5) mem]
        by simp
    next
      case True
      from Cons.prems obtain j where j: "index (axis c) b = Some j"
        using index_mem [of b "axis c"] by auto
      then have jlt: "j < length (last_value s)"
        using index_Some [OF j] Cons.prems(2) by simp
      have ji: "j \<noteq> i" using index_inj [OF j] Cons.prems(4) False by auto
      let ?s2 = "s\<lparr>last_value := (last_value s)[j := Fin 0],
                    trace := trace s @ axis_events q b (last_value s ! j)\<rparr>"
      have step: "move_axes c (b # bs) s = move_axes c bs ?s2"
        using move_axes_step [OF Cons.prems(1) True j jlt] .
      have len: "length (axis c) \<le> length (last_value ?s2)" using Cons.prems(2) by simp
      obtain s' evs where r: "move_axes c bs ?s2 = Inr s'" "trace s' = trace ?s2 @ evs"
          "last_value s' ! i = Fin 0" "length (last_value s') = length (last_value ?s2)"
          "enabled s' = enabled ?s2" "timer s' = timer ?s2"
          "steps_sent a evs = steps_sent a (axis_events q a (last_value ?s2 ! i))"
          "set (axis_events q a (last_value ?s2 ! i)) \<subseteq> set evs"
        using Cons.IH [OF Cons.prems(1) len sub Cons.prems(4) Cons.prems(5) mem] by blast
      have quiet: "steps_sent a (axis_events q b (last_value s ! j)) = []"
        using False by (simp add: steps_sent_axis_events)
      show ?thesis
        apply (rule exI [of _ s'])
        apply (rule exI [of _ "axis_events q b (last_value s ! j) @ evs"])
        using r step ji quiet by (auto simp add: steps_sent_append)
    qed
  qed
qed

lemma loop_axis:
  assumes "enabled s" and "timer_interval c = Inr ms"
    and "float_div (hardware_frequency c) (ui_frequency c) = Inr q"
    and "length (axis c) \<le> length (last_value s)"
    and "truthy a" and "index (axis c) a = Some i"
  shows "\<exists>s' evs. loop c s = Inr s'
           \<and> new_events s s' = TimerStart ms # evs
           \<and> last_value s' ! i = Fin 0
           \<and> enabled s' \<and> timer s' = Some ms
           \<and> steps_sent a evs = steps_sent a (axis_events q a (last_value s ! i))
           \<and> set (axis_events q a (last_value s ! i)) \<subseteq> set evs"
proof -
  let ?s1 = "s\<lparr>timer := Some ms, trace := trace s @ [TimerStart ms]\<rparr>"
  have st: "start_timer c s = Inr ?s1" using start_timer_Inr [OF assms(2)] .
  have len: "length (axis c) \<le> length (last_value ?s1)" using assms(4) by simp
  have mem: "a \<in> set (axis c)" using index_truthy_mem [OF assms(6)] .
  obtain s' evs where r: "move_axes c (axis c) ?s1 = Inr s'" "trace s' = trace ?s1 @ evs"
      "last_value s' ! i = Fin 0" "enabled s' = enabled ?s1" "timer s' = timer ?s1"
      "steps_sent a evs = steps_sent a (axis_events q a (last_value ?s1 ! i))"
      "set (axis_events q a (last_value ?s1 ! i)) \<subseteq> set evs"
    using move_axes_axis [OF assms(3) len subset_refl assms(6) assms(5) mem] by blast
  show ?thesis
    apply (rule exI [of _ s'])
    apply (rule exI [of _ evs])
    using r st assms(1) by (simp add: loop_def move_def new_events_def)
qed

lemma move_axis_final:
  "\<exists>evs. final (move_axis c a v s) = s\<lparr>trace := trace s @ evs\<rparr>
     \<and> (truthy a \<and> a \<in> set (axis c) \<longrightarrow> list_all (move_event c) evs)"
proof (cases "float_div (hardware_frequency c) (ui_frequency c)")
  case (Inr q)
  have "final (move_axis c a v s) = s\<lparr>trace := trace s @ axis_events q a v\<rparr>"
    using move_axis_ok [OF Inr] by (simp add: final_def)
  moreover have "truthy a \<and> a \<in> set (axis c) \<longrightarrow> list_all (move_event c) (axis_events q a v)"
    by (simp add: move_event_def axis_events_def)
  ultimately show ?thesis by blast
next
  case (Inl e)
  let ?evs = "if float_eq v (Fin 0) then [] else if out_of_range v then [LogError v] else []"
  have "final (move_axis c a v s) = s\<lparr>trace := trace s @ ?evs\<rparr>"
    using Inl by (simp add: move_axis_def final_def emit_def out_of_range_def Let_def)
  moreover have "list_all (move_event c) ?evs"
    by (simp add: move_event_def)
  ultimately show ?thesis by blast
qed

lemma move_axes_final:
  assumes "set as \<subseteq> set (axis c)"
  shows "\<exists>evs. trace (final (move_axes c as s)) = trace s @ evs
           \<and> list_all (move_event c) evs
           \<and> enabled (final (move_axes c as s)) = enabled s
           \<and> timer (final (move_axes c as s)) = timer s
           \<and> length (last_value (final (move_axes c as s))) = length (last_value s)"
  using assms
proof (induction as arbitrary: s)
  case Nil
  then show ?case by (simp add: final_def)
next
  case (Cons b bs)
  then have sub: "set bs \<subseteq> set (axis c)" and bmem: "b \<in> set (axis c)" by auto
  show ?case
  proof (cases "truthy b")
    case False
    then show ?thesis using Cons.IH [OF sub, of s] by simp
  next
    case True
    obtain j where j: "index (axis c) b = Some j" using index_mem [OF bmem] by blast
    show ?thesis
    proof (cases "j < length (last_value s)")
      case False
      then show ?thesis using True j by (simp add: final_def read_last_value_def)
    next
      case jlt: True
      let ?s1 = "s\<lparr>last_value := (last_value s)[j := Fin 0]\<rparr>"
      have body: "move_axes c (b # bs) s =
          (case move_axis c b (last_value s ! j) ?s1 of
             Inl e \<Rightarrow> Inl e | Inr s2 \<Rightarrow> move_axes c bs s2)"
        using True j jlt by (simp add: read_last_value_def reset_and_move_def)
      obtain evs1 where e1:
          "final (move_axis c b (last_value s ! j) ?s1) = ?s1\<lparr>trace := trace ?s1 @ evs1\<rparr>"
          "list_all (move_event c) evs1"
        using move_axis_final [of c b "last_value s ! j" ?s1] True bmem by blast
      show ?thesis
      proof (cases "move_axis c b (last_value s ! j) ?s1")
        case (Inl e)
        then have "final (move_axes c (b # bs) s) = ?s1\<lparr>trace := trace ?s1 @ evs1\<rparr>"
          using body e1(1) by (simp add: final_def)
        then show ?thesis using e1(2) by simp
      next
        case (Inr s2)
        then have s2: "s2 = ?s1\<lparr>trace := trace ?s1 @ evs1\<rparr>" using e1(1) by (simp add: final_def)
        have step: "move_axes c (b # bs) s = move_axes c bs s2"
          using body Inr by simp
        obtain evs2 where e2: "trace (final (move_axes c bs s2)) = trace s2 @ evs2"
            "list_all (move_event c) evs2"
            "enabled (final (move_axes c bs s2)) = enabled s2"
            "timer (final (move_axes c bs s2)) = timer s2"
            "length (last_value (final (move_axes c bs s2))) = length (last_value s2)"
          using Cons.IH [OF sub, of s2] by blast
        show ?thesis
          apply (rule exI [of _ "evs1 @ evs2"])
          using step e2 e1(2) s2 by simp
      qed
    qed
  qed
qed

lemma move_axes_slot:
  assumes "set as \<subseteq> set (axis c)" "k < length (axis c)" "\<not> truthy (axis c ! k)"
  shows "last_value (final (move_axes c as s)) ! k = last_value s ! k"
  using assms
proof (induction as arbitrary: s)
  case Nil
  then show ?case by (simp add: final_def)
next
  case (Cons b bs)
  then have sub: "set bs \<subseteq> set (axis c)" and bmem: "b \<in> set (axis c)" by auto
  note IH = Cons.IH [OF sub Cons.prems(2) Cons.prems(3)]
  show ?case
  proof (cases "truthy b")
    case False
    then show ?thesis using IH [of s] by simp
  next
    case True
    obtain j where j: "index (axis c) b = Some j" using index_mem [OF bmem] by blast
    have jk: "j \<noteq> k" using index_Some [OF j] True Cons.prems(3) by auto
    show ?thesis
    proof (cases "j < length (last_value s)")
      case False
      then show ?thesis using True j by (simp add: final_def read_last_value_def)
    next
      case jlt: True
      let ?s1 = "s\<lparr>last_value := (last_value s)[j := Fin 0]\<rparr>"
      have body: "move_axes c (b # bs) s =
          (case move_axis c b (last_value s ! j) ?s1 of
             Inl e \<Rightarrow> Inl e | Inr s2 \<Rightarrow> move_axes c bs s2)"
        using True j jlt by (simp add: read_last_value_def reset_and_move_def)
      obtain evs1 where e1:
          "final (move_axis c b (last_value s ! j) ?s1) = ?s1\<lparr>trace := trace ?s1 @ evs1\<rparr>"
        using move_axis_final [of c b "last_value s ! j" ?s1] by blast
      show ?thesis
      proof (cases "move_axis c b (last_value s ! j) ?s1")
        case (Inl e)
        then have "final (move_axes c (b # bs) s) = ?s1\<lparr>trace := trace ?s1 @ evs1\<rparr>"
          using body e1 by (simp add: final_def)
        then show ?thesis using jk by simp
      next
        case (Inr s2)
        then have s2: "s2 = ?s1\<lparr>trace := trace ?s1 @ evs1\<rparr>" using e1 by (simp add: final_def)
        have step: "move_axes c (b # bs) s = move_axes c bs s2"
          using body Inr by simp
        show ?thesis using step IH [of s2] s2 jk by simp
      qed
    qed
  qed
qed

lemma loop_slot:
  assumes "k < length (axis c)" "\<not> truthy (axis c ! k)"
  shows "last_value (final (loop c s)) ! k = last_value s ! k"
proof (cases "enabled s")
  case False
  then show ?thesis by (simp add: loop_def final_def)
next
  case True
  show ?thesis
  proof (cases "timer_interval c")
    case (Inl e)
    then show ?thesis using True by (simp add: loop_def start_timer_Inl final_def)
  next
    case (Inr ms)
    let ?s1 = "s\<lparr>timer := Some ms, trace := trace s @ [TimerStart ms]\<rparr>"
    have fl: "final (loop c s) = final (move_axes c (axis c) ?s1)"
      using True start_timer_Inr [OF Inr] by (simp add: loop_def move_def)
    show ?thesis
      using move_axes_slot [OF subset_refl assms, of ?s1] fl by simp
  qed
qed

lemma setup_event_simps:
  "setup_event c (Frequency a f) = (truthy a \<and> a \<in> set (axis c))"
  "setup_event c (Voltage a v) = (truthy a \<and> a \<in> set (axis c))"
  by (simp_all add: setup_event_def)

lemma setup_axes_calls: "setup_axes c as s = s\<lparr>trace := trace s @ setup_calls c as\<rparr>"
  by (induction as arbitrary: s) (simp_all add: emit_def)

lemma setup_calls_events: "set as \<subseteq> set (axis c) \<Longrightarrow> list_all (setup_event c) (setup_calls c as)"
  by (induction as) (simp_all add: setup_event_simps)

lemma move_event_ok: "move_event c e \<Longrightarrow> addressed_ok c e"
  by (cases e) (simp_all add: move_event_def addressed_ok_def)

lemma setup_event_ok: "setup_event c e \<Longrightarrow> addressed_ok c e"
  by (cases e) (simp_all add: setup_event_def addressed_ok_def)

lemma move_event_not_timer: "move_event c e \<Longrightarrow> \<not> is_timer_call e"
  by (cases e) (simp_all add: move_event_def)

lemma move_events_no_timer: "list_all (move_event c) evs \<Longrightarrow> filter is_timer_call evs = []"
  by (induction evs) (auto dest: move_event_not_timer)

lemma move_event_LogError: "move_event c (LogError v) \<Longrightarrow> out_of_range v"
  by (simp add: move_event_def)

lemma addressed_okD:
  "addressed_ok c e \<Longrightarrow> device_axis e = Some a \<Longrightarrow> a \<noteq> None \<and> truthy a \<and> a \<in> set (axis c)"
  by (cases a) (auto simp add: addressed_ok_def truthy_def)

lemma addressed_ok_no_lock: "addressed_ok c e \<Longrightarrow> \<not> is_lock_call e"
  by (simp add: addressed_ok_def)

lemma start_timer_trace:
  "\<exists>evs. trace (final (start_timer c s)) = trace s @ evs \<and> list_all (addressed_ok c) evs"
proof (cases "timer_interval c")
  case (Inl e)
  then have "trace (final (start_timer c s)) = trace s @ []"
    by (simp add: start_timer_Inl final_def)
  moreover have "list_all (addressed_ok c) []" by simp
  ultimately show ?thesis by blast
next
  case (Inr ms)
  then have "trace (final (start_timer c s)) = trace s @ [TimerStart ms]"
    by (simp add: start_timer_Inr final_def)
  moreover have "list_all (addressed_ok c) [TimerStart ms]"
    by (simp add: addressed_ok_def)
  ultimately show ?thesis by blast
qed

lemma move_trace:
  "\<exists>evs. trace (final (move c s)) = trace s @ evs \<and> list_all (addressed_ok c) evs"
proof -
  obtain evs where "trace (final (move_axes c (axis c) s)) = trace s @ evs" "list_all (move_event c) evs"
    using move_axes_final [OF subset_refl, of c s] by blast
  then show ?thesis unfolding move_def
    using list_all_weaken [of "move_event c" evs "addressed_ok c"] move_event_ok by blast
qed

lemma loop_trace:
  "\<exists>evs. trace (final (loop c s)) = trace s @ evs \<and> list_all (addressed_ok c) evs"
proof (cases "enabled s")
  case False
  then have "trace (final (loop c s)) = trace s @ []" by (simp add: loop_def final_def)
  moreover have "list_all (addressed_ok c) []" by simp
  ultimately show ?thesis by blast
next
  case True
  obtain evs1 where e1: "trace (final (start_timer c s)) = trace s @ evs1" "list_all (addressed_ok c) evs1"
    using start_timer_trace by blast
  show ?thesis
  proof (cases "start_timer c s")
    case (Inl e)
    then have "final (loop c s) = final (start_timer c s)" using True by (simp add: loop_def final_def)
    then show ?thesis using e1 by auto
  next
    case (Inr s1)
    then have s1: "final (start_timer c s) = s1" by (simp add: final_def)
    obtain evs2 where e2: "trace (final (move c s1)) = trace s1 @ evs2" "list_all (addressed_ok c) evs2"
      using move_trace by blast
    have "final (loop c s) = final (move c s1)" using True Inr by (simp add: loop_def)
    then show ?thesis
      using e1 e2 s1 by (intro exI [of _ "evs1 @ evs2"]) simp
  qed
qed

lemma setup_axis_trace:
  "\<exists>evs. setup_axis c s = s\<lparr>trace := trace s @ evs\<rparr> \<and> list_all (addressed_ok c) evs"
proof -
  have "list_all (setup_event c) (setup_calls c (axis c))"
    using setup_calls_events [OF subset_refl] .
  then have "list_all (addressed_ok c) (setup_calls c (axis c))"
    using list_all_weaken [of "setup_event c" _ "addressed_ok c"] setup_event_ok by blast
  then show ?thesis unfolding setup_axis_def setup_axes_calls by blast
qed

lemma on_activate_trace:
  "\<exists>evs. trace (final (on_activate c s)) = trace s @ evs \<and> list_all (addressed_ok c) evs"
proof -
  obtain evs1 where e1: "setup_axis c (s\<lparr>timer := None\<rparr>) = (s\<lparr>timer := None\<rparr>)\<lparr>trace := trace (s\<lparr>timer := None\<rparr>) @ evs1\<rparr>"
      "list_all (addressed_ok c) evs1"
    using setup_axis_trace by blast
  let ?s1 = "(setup_axis c (s\<lparr>timer := None\<rparr>))\<lparr>enabled := True\<rparr>"
  obtain evs2 where e2: "trace (final (start_timer c ?s1)) = trace ?s1 @ evs2" "list_all (addressed_ok c) evs2"
    using start_timer_trace by blast
  have "trace ?s1 = trace s @ evs1" using e1(1) by simp
  then show ?thesis
    using e1(2) e2 by (intro exI [of _ "evs1 @ evs2"]) (simp add: on_activate_def startLoop_def)
qed

lemma exec_op_trace:
  "\<exists>evs. trace (final (exec_op c x s)) = trace s @ evs \<and> list_all (addressed_ok c) evs"
proof (cases x)
  case (Write i v)
  then have "trace (final (exec_op c x s)) = trace s @ []"
    by (simp add: set_last_value_def final_def)
  moreover have "list_all (addressed_ok c) []" by simp
  ultimately show ?thesis by blast
next
  case Tick
  then show ?thesis using loop_trace by simp
next
  case StartLoop
  then show ?thesis using start_timer_trace [of c "s\<lparr>enabled := True\<rparr>"] by (simp add: startLoop_def)
next
  case StopLoop
  then have "trace (final (exec_op c x s)) = trace s @ [TimerStop, Stop]"
    by (simp add: stopLoop_def final_def emit_def)
  moreover have "list_all (addressed_ok c) [TimerStop, Stop]" by (simp add: addressed_ok_def)
  ultimately show ?thesis by blast
next
  case Activate
  then show ?thesis using on_activate_trace by simp
qed

lemma run_trace:
  "\<exists>evs. trace (run c ops s) = trace s @ evs \<and> list_all (addressed_ok c) evs"
proof (induction ops arbitrary: s)
  case Nil
  have "trace (run c [] s) = trace s @ []" by simp
  moreover have "list_all (addressed_ok c) []" by simp
  ultimately show ?case by blast
next
  case (Cons x xs)
  obtain evs1 where e1: "trace (final (exec_op c x s)) = trace s @ evs1" "list_all (addressed_ok c) evs1"
    using exec_op_trace by blast
  obtain evs2 where e2: "trace (run c xs (final (exec_op c x s))) = trace (final (exec_op c x s)) @ evs2"
      "list_all (addressed_ok c) evs2"
    using Cons.IH by blast
  show ?case using e1 e2 by (intro exI [of _ "evs1 @ evs2"]) simp
qed

lemma disabled_exec_op:
  assumes "\<not> enabled s \<and> timer s = None" "x \<noteq> StartLoop" "x \<noteq> Activate"
  shows "\<exists>evs. trace (final (exec_op c x s)) = trace s @ evs
           \<and> filter is_steps evs = [] \<and> filter is_timer_start evs = []
           \<and> \<not> enabled (final (exec_op c x s)) \<and> timer (final (exec_op c x s)) = None"
proof (cases x)
  case (Write i v)
  then have "trace (final (exec_op c x s)) = trace s @ [] \<and> \<not> enabled (final (exec_op c x s))
      \<and> timer (final (exec_op c x s)) = None"
    using assms(1) by (simp add: set_last_value_def final_def)
  then show ?thesis by (intro exI [of _ "[]"]) simp
next
  case Tick
  then have "trace (final (exec_op c x s)) = trace s @ [] \<and> \<not> enabled (final (exec_op c x s))
      \<and> timer (final (exec_op c x s)) = None"
    using assms(1) by (simp add: loop_def final_def)
  then show ?thesis by (intro exI [of _ "[]"]) simp
next
  case StopLoop
  then have "trace (final (exec_op c x s)) = trace s @ [TimerStop, Stop] \<and> \<not> enabled (final (exec_op c x s))
      \<and> timer (final (exec_op c x s)) = None"
    by (simp add: stopLoop_def final_def emit_def)
  then show ?thesis by (intro exI [of _ "[TimerStop, Stop]"]) simp
qed (use assms in simp_all)

lemma disabled_run:
  assumes "\<not> enabled s \<and> timer s = None" "StartLoop \<notin> set ops" "Activate \<notin> set ops"
  shows "\<exists>evs. trace (run c ops s) = trace s @ evs
           \<and> filter is_steps evs = [] \<and> filter is_timer_start evs = []
           \<and> \<not> enabled (run c ops s) \<and> timer (run c ops s) = None"
  using assms
proof (induction ops arbitrary: s)
  case Nil
  then show ?case by (intro exI [of _ "[]"]) simp
next
  case (Cons x xs)
  then have x: "x \<noteq> StartLoop" "x \<noteq> Activate" and xs: "StartLoop \<notin> set xs" "Activate \<notin> set xs"
    by auto
  obtain evs1 where e1: "trace (final (exec_op c x s)) = trace s @ evs1"
      "filter is_steps evs1 = []" "filter is_timer_start evs1 = []"
      "\<not> enabled (final (exec_op c x s)) \<and> timer (final (exec_op c x s)) = None"
    using disabled_exec_op [OF Cons.prems(1) x] by blast
  obtain evs2 where e2: "trace (run c xs (final (exec_op c x s))) = trace (final (exec_op c x s)) @ evs2"
      "filter is_steps evs2 = []" "filter is_timer_start evs2 = []"
      "\<not> enabled (run c xs (final (exec_op c x s)))"
      "timer (run c xs (final (exec_op c x s))) = None"
    using Cons.IH [OF e1(4) xs] by blast
  show ?case using e1 e2 by (intro exI [of _ "evs1 @ evs2"]) simp
qed

text \<open>The default configuration and the module it activates.\<close>

lemma default_config_simps:
  "ui_frequency default_config = Fin 10" "hardware_frequency default_config = Fin 1000"
  "hardware_voltage default_config = Fin 40" "axis default_config = [Some ''x'', Some ''y'', None]"
  by (simp_all add: default_config_def)

lemma default_interval: "timer_interval default_config = Inr 100"
  by (simp add: timer_interval_def default_config_simps div_1000_10 trunc_def)

lemma default_ratio:
  "float_div (hardware_frequency default_config) (ui_frequency default_config) = Inr (Fin 100)"
  by (simp add: default_config_simps div_1000_10)

lemma active_state_eq:
  "active_state = \<lparr>enabled = True, timer = Some 100, last_value = [Fin 0, Fin 0, Fin 0],
     trace = [Frequency (Some ''x'') (Fin 1000), Voltage (Some ''x'') (Fin 40),
              Frequency (Some ''y'') (Fin 1000), Voltage (Some ''y'') (Fin 40), TimerStart 100]\<rparr>"
  by (simp add: active_state_def on_activate_def startLoop_def start_timer_Inr [OF default_interval]
      setup_axis_def setup_axes_calls final_def init_state_def default_config_simps truthy_def)

lemma half_pending_eq:
  "half_pending = \<lparr>enabled = True, timer = Some 100, last_value = [Fin (1 / 2), Fin 0, Fin 0],
     trace = [Frequency (Some ''x'') (Fin 1000), Voltage (Some ''x'') (Fin 40),
              Frequency (Some ''y'') (Fin 1000), Voltage (Some ''y'') (Fin 40), TimerStart 100]\<rparr>"
  by (simp add: half_pending_def active_state_eq set_last_value_def final_def)

lemma loop_events:
  assumes "enabled s" and "timer_interval c = Inr ms"
  shows "\<exists>evs. new_events s (final (loop c s)) = TimerStart ms # evs \<and> list_all (move_event c) evs"
proof -
  let ?s1 = "s\<lparr>timer := Some ms, trace := trace s @ [TimerStart ms]\<rparr>"
  have fl: "final (loop c s) = final (move_axes c (axis c) ?s1)"
    using assms(1) start_timer_Inr [OF assms(2)] by (simp add: loop_def move_def)
  obtain evs where e: "trace (final (move_axes c (axis c) ?s1)) = trace ?s1 @ evs"
      "list_all (move_event c) evs"
    using move_axes_final [OF subset_refl, of c ?s1] by blast
  have "new_events s (final (loop c s)) = TimerStart ms # evs"
    using fl e(1) by (simp add: new_events_def)
  then show ?thesis using e(2) by blast
qed

lemma in_range_not_logged:
  assumes "list_all (move_event c) evs" and "- 1 \<le> r" and "r \<le> 1"
  shows "LogError (Fin r) \<notin> set evs"
proof
  assume "LogError (Fin r) \<in> set evs"
  then have "move_event c (LogError (Fin r))" using assms(1) by (simp add: list_all_iff)
  then have "out_of_range (Fin r)" by (rule move_event_LogError)
  then show False using assms(2) assms(3) by (simp add: out_of_range_def)
qed

lemma out_of_range_logged:
  assumes "float_lt v (Fin (- 1)) \<or> float_lt (Fin 1) v"
  shows "LogError v \<in> set (axis_events q a v)"
proof -
  have "v \<noteq> Fin 0" using assms by auto
  then show ?thesis using assms by (simp add: axis_events_def out_of_range_def float_eq_zero)
qed

text \<open>
  A tick of the default configuration with a command pending on \<open>'x'\<close> and none on
  \<open>'y'\<close>, whatever the third slot holds.
\<close>

lemma default_tick:
  assumes "enabled s" and "last_value s = [v, Fin 0, w]"
  shows "loop default_config s =
         Inr (s\<lparr>timer := Some 100, last_value := [Fin 0, Fin 0, w],
                trace := trace s @ TimerStart 100 # axis_events (Fin 100) (Some ''x'') v\<rparr>)"
proof -
  let ?s1 = "s\<lparr>timer := Some 100, trace := trace s @ [TimerStart 100]\<rparr>"
  have st: "start_timer default_config s = Inr ?s1" using start_timer_Inr [OF default_interval] .
  have x: "truthy (Some ''x'')" and y: "truthy (Some ''y'')" and n: "\<not> truthy None"
    by (simp_all add: truthy_def)
  have ix: "index (axis default_config) (Some ''x'') = Some 0"
    and iy: "index (axis default_config) (Some ''y'') = Some 1"
    by (simp_all add: default_config_simps)
  let ?s2 = "?s1\<lparr>last_value := (last_value ?s1)[0 := Fin 0],
                  trace := trace ?s1 @ axis_events (Fin 100) (Some ''x'') (last_value ?s1 ! 0)\<rparr>"
  have m1: "move_axes default_config [Some ''x'', Some ''y'', None] ?s1 =
            move_axes default_config [Some ''y'', None] ?s2"
    by (rule move_axes_step [OF default_ratio x ix]) (simp add: assms(2))
  let ?s3 = "?s2\<lparr>last_value := (last_value ?s2)[1 := Fin 0],
                  trace := trace ?s2 @ axis_events (Fin 100) (Some ''y'') (last_value ?s2 ! 1)\<rparr>"
  have m2: "move_axes default_config [Some ''y'', None] ?s2 = move_axes default_config [None] ?s3"
    by (rule move_axes_step [OF default_ratio y iy]) (simp add: assms(2))
  have m3: "move_axes default_config [None] ?s3 = Inr ?s3" using n by simp
  have quiet: "axis_events (Fin 100) (Some ''y'') (Fin 0) = []" by (simp add: axis_events_def)
  have "loop default_config s = Inr ?s3"
    using assms(1) st m1 m2 m3 by (simp add: loop_def move_def default_config_simps)
  then show ?thesis using assms(2) quiet by simp
qed

lemma axis_events_half:
  "axis_events (Fin 100) a (Fin (1 / 2)) = [Steps a (Fin 50)]"
  by (simp add: axis_events_def out_of_range_def mul_100_half trunc_def)

lemma axis_events_three_halves:
  "axis_events (Fin 100) a (Fin (3 / 2)) = [LogError (Fin (3 / 2)), Steps a (Fin 150)]"
  by (simp add: axis_events_def out_of_range_def mul_100_three_halves trunc_def)

lemma axis_events_one:
  "axis_events (Fin 100) a (Fin 1) = [Steps a (Fin 100)]"
  by (simp add: axis_events_def out_of_range_def mul_100_one trunc_def)

lemma axis_events_zero: "axis_events q a (Fin 0) = []"
  by (simp add: axis_events_def)


lemma axis_events_099:
  "axis_events (Fin 100) a (float_literal (99 / 100)) = [Steps a (Fin 99)]"
  unfolding literal_099
  by (simp add: axis_events_def out_of_range_def mul_100_099 trunc_def)

lemma tiny_config_simps:
  "ui_frequency tiny_config = tiny_frequency" "hardware_frequency tiny_config = Fin 1000"
  "hardware_voltage tiny_config = Fin 40" "axis tiny_config = [Some ''x'', Some ''y'', None]"
  by (simp_all add: tiny_config_def default_config_def)

lemma zero_config_simps:
  "ui_frequency zero_config = Fin 0" "hardware_frequency zero_config = Fin 1000"
  "hardware_voltage zero_config = Fin 40" "axis zero_config = [Some ''x'', Some ''y'', None]"
  by (simp_all add: zero_config_def default_config_def)

lemma tiny_interval: "timer_interval tiny_config = Inl OverflowError"
  by (simp add: timer_interval_def tiny_config_simps div_1000_tiny)

lemma zero_interval: "timer_interval zero_config = Inl ZeroDivisionError"
  by (simp add: timer_interval_def zero_config_simps float_div_zero)

section \<open>The claims of the specification\<close>

text \<open>
  Throughout, a tick is one call of \<open>loop\<close>, the pending value of an axis \<open>a\<close> is the
  slot \<open>index (axis c) a\<close> of \<open>last_value\<close>, and \<open>new_events s s'\<close> are the timer,
  hardware, log and mutex calls made between the states \<open>s\<close> and \<open>s'\<close>. The concrete
  scenarios use the default configuration (\<open>hardware_frequency = 1000\<close>,
  \<open>ui_frequency = 10\<close>, axes \<open>('x', 'y', None)\<close>) on the module as activation leaves it.
  Step counts are the floats the code computes: the quotient of the two frequencies, times
  the command, each rounded to binary64, then truncated.
\<close>

subsection \<open>C1: a command in range is sent as a truncated step count\<close>

text \<open>
  Claim C1, as the code has it. Let the loop be enabled, let the timer interval
  \<open>int(1000 / ui_frequency)\<close> be computable, and let \<open>last_value\<close> have a slot for every
  entry of the axis tuple. For every nonzero \<open>v\<close> in \<open>[-1, 1]\<close> and every configured axis
  \<open>a\<close> (one that passes \<open>if axis:\<close>), writing \<open>v\<close> as the pending value of \<open>a\<close> and
  executing one tick returns normally, makes exactly one \<open>steps\<close> call for \<open>a\<close>, with
  count \<open>trunc (hardware_frequency / ui_frequency * v)\<close> in float arithmetic (rounded
  toward zero), logs no error for \<open>v\<close>, and leaves the pending value at 0. The value 0 has
  to be excluded: \<open>move_axis\<close> returns at once on it.
\<close>

theorem tick_sends_truncated_steps:
  assumes "enabled s" and "timer_interval c = Inr ms"
    and "length (axis c) \<le> length (last_value s)"
    and "truthy a" and "index (axis c) a = Some i"
    and "- 1 \<le> r" and "r \<le> 1" and "r \<noteq> 0"
  shows "\<exists>s1 s' q. set_last_value i (Fin r) s = Inr s1 \<and> loop c s1 = Inr s'
           \<and> float_div (hardware_frequency c) (ui_frequency c) = Inr q
           \<and> steps_sent a (new_events s1 s') = [np_trunc (float_mul q (Fin r))]
           \<and> LogError (Fin r) \<notin> set (new_events s1 s')
           \<and> last_value s' ! i = Fin 0"
proof -
  have ilt: "i < length (last_value s)"
    using index_Some [OF assms(5)] assms(3) by simp
  let ?s1 = "s\<lparr>last_value := (last_value s)[i := Fin r]\<rparr>"
  have w: "set_last_value i (Fin r) s = Inr ?s1" using ilt by (simp add: set_last_value_def)
  have len: "length (axis c) \<le> length (last_value ?s1)" using assms(3) by simp
  have en: "enabled ?s1" using assms(1) by simp
  obtain q where q: "float_div (hardware_frequency c) (ui_frequency c) = Inr q"
    using timer_interval_div [OF assms(2)] by blast
  obtain s' evs where r: "loop c ?s1 = Inr s'"
      "new_events ?s1 s' = TimerStart ms # evs"
      "last_value s' ! i = Fin 0"
      "steps_sent a evs = steps_sent a (axis_events q a (last_value ?s1 ! i))"
    using loop_axis [OF en assms(2) q len assms(4) assms(5)] by blast
  obtain evs2 where e2: "new_events ?s1 (final (loop c ?s1)) = TimerStart ms # evs2"
      "list_all (move_event c) evs2"
    using loop_events [OF en assms(2)] by blast
  have "evs2 = evs" using e2(1) r(1) r(2) by (simp add: final_def)
  then have "LogError (Fin r) \<notin> set evs"
    using in_range_not_logged [OF e2(2) assms(6) assms(7)] by simp
  then have nolog: "LogError (Fin r) \<notin> set (new_events ?s1 s')" using r(2) by simp
  have "steps_sent a (new_events ?s1 s') = [np_trunc (float_mul q (Fin r))]"
    using r(2) r(4) ilt assms(8) by (simp add: steps_sent_axis_events)
  then show ?thesis using w r(1) r(3) q nolog by blast
qed

text \<open>
  The scenario of the specification: command \<open>0.5\<close> on axis \<open>'x'\<close> gives
  \<open>steps('x', 50)\<close>. And one where the rounding of the product matters: command \<open>0.99\<close>
  gives \<open>steps('x', 99)\<close>, though the float \<open>0.99\<close> is below \<open>99/100\<close>.
\<close>

theorem tick_sends_truncated_steps_witness:
  "(\<exists>s1 s'. set_last_value 0 (Fin (1 / 2)) active_state = Inr s1 \<and> loop default_config s1 = Inr s'
      \<and> steps_sent (Some ''x'') (new_events s1 s') = [Fin 50] \<and> last_value s' ! 0 = Fin 0)
   \<and> float_literal (99 / 100) = Fin (4458563631096791 / 4503599627370496)
   \<and> (\<exists>s1 s'. set_last_value 0 (float_literal (99 / 100)) active_state = Inr s1
      \<and> loop default_config s1 = Inr s'
      \<and> steps_sent (Some ''x'') (new_events s1 s') = [Fin 99] \<and> last_value s' ! 0 = Fin 0)"
proof -
  have h1: "enabled active_state" by (simp add: active_state_eq)
  have h3: "length (axis default_config) \<le> length (last_value active_state)"
    by (simp add: active_state_eq default_config_simps)
  have h4: "truthy (Some ''x'')" by (simp add: truthy_def)
  have h5: "index (axis default_config) (Some ''x'') = Some 0" by (simp add: default_config_simps)
  have t1: "np_trunc (float_mul (Fin 100) (Fin (1 / 2))) = Fin 50"
    by (simp add: mul_100_half trunc_def)
  have t2: "np_trunc (float_mul (Fin 100) (Fin (4458563631096791 / 4503599627370496))) = Fin 99"
    by (simp add: mul_100_099 trunc_def)
  have a: "\<exists>s1 s'. set_last_value 0 (Fin (1 / 2)) active_state = Inr s1 \<and> loop default_config s1 = Inr s'
      \<and> steps_sent (Some ''x'') (new_events s1 s') = [Fin 50] \<and> last_value s' ! 0 = Fin 0"
    using tick_sends_truncated_steps [OF h1 default_interval h3 h4 h5, of "1 / 2"] default_ratio t1
    by auto
  have b: "\<exists>s1 s'. set_last_value 0 (Fin (4458563631096791 / 4503599627370496)) active_state = Inr s1
      \<and> loop default_config s1 = Inr s'
      \<and> steps_sent (Some ''x'') (new_events s1 s') = [Fin 99] \<and> last_value s' ! 0 = Fin 0"
    using tick_sends_truncated_steps
      [OF h1 default_interval h3 h4 h5, of "4458563631096791 / 4503599627370496"] default_ratio t2
    by auto
  show ?thesis using a b unfolding literal_099 by simp
qed

text \<open>
  As the specification states it, the claim includes the command \<open>0\<close>, for which it
  promises one call with count \<open>trunc (100 * 0) = 0\<close>. The code makes no call at all.
\<close>

theorem zero_command_sends_nothing_counterexample:
  "truthy (Some ''x'')
   \<and> index (axis default_config) (Some ''x'') = Some 0
   \<and> steps_sent (Some ''x'')
        (new_events (final (set_last_value 0 (Fin 0) active_state))
           (final (loop default_config (final (set_last_value 0 (Fin 0) active_state))))) = []"
proof -
  let ?s = "final (set_last_value 0 (Fin 0) active_state)"
  have s: "enabled ?s" "last_value ?s = [Fin 0, Fin 0, Fin 0]"
    by (simp_all add: active_state_eq set_last_value_def final_def)
  show ?thesis
    unfolding default_tick [OF s]
    by (simp add: truthy_def default_config_simps final_def new_events_def axis_events_zero)
qed

subsection \<open>C2: a command out of range\<close>

text \<open>
  Claim C2, as the code has it. Nothing checks a value when it is written: the write of a
  value \<open>v\<close> outside \<open>[-1, 1]\<close> succeeds and \<open>v\<close> becomes the pending value. The range is
  checked when the next tick consumes it: under the assumptions of C1 on the loop, that tick
  returns normally (no exception), logs an error for \<open>v\<close>, resets the pending value to 0,
  and the loop goes on (still enabled, timer re-armed).
\<close>

theorem out_of_range_command_logged:
  assumes "enabled s" and "timer_interval c = Inr ms"
    and "length (axis c) \<le> length (last_value s)"
    and "truthy a" and "index (axis c) a = Some i"
    and "float_lt v (Fin (- 1)) \<or> float_lt (Fin 1) v"
  shows "\<exists>s1 s'. set_last_value i v s = Inr s1 \<and> last_value s1 ! i = v
           \<and> loop c s1 = Inr s'
           \<and> LogError v \<in> set (new_events s1 s')
           \<and> last_value s' ! i = Fin 0
           \<and> enabled s' \<and> timer s' = Some ms"
proof -
  have ilt: "i < length (last_value s)"
    using index_Some [OF assms(5)] assms(3) by simp
  let ?s1 = "s\<lparr>last_value := (last_value s)[i := v]\<rparr>"
  have w: "set_last_value i v s = Inr ?s1" using ilt by (simp add: set_last_value_def)
  have at: "last_value ?s1 ! i = v" using ilt by simp
  have len: "length (axis c) \<le> length (last_value ?s1)" using assms(3) by simp
  have en: "enabled ?s1" using assms(1) by simp
  obtain q where q: "float_div (hardware_frequency c) (ui_frequency c) = Inr q"
    using timer_interval_div [OF assms(2)] by blast
  obtain s' evs where r: "loop c ?s1 = Inr s'"
      "new_events ?s1 s' = TimerStart ms # evs"
      "last_value s' ! i = Fin 0" "enabled s'" "timer s' = Some ms"
      "set (axis_events q a (last_value ?s1 ! i)) \<subseteq> set evs"
    using loop_axis [OF en assms(2) q len assms(4) assms(5)] by blast
  have "LogError v \<in> set (axis_events q a v)"
    using out_of_range_logged [OF assms(6)] .
  then have "LogError v \<in> set (new_events ?s1 s')" using r(2) r(6) at by auto
  then show ?thesis using w at r(1) r(3) r(4) r(5) by blast
qed

theorem out_of_range_command_logged_witness:
  "\<exists>s1 s'. set_last_value 0 (Fin (3 / 2)) active_state = Inr s1 \<and> last_value s1 ! 0 = Fin (3 / 2)
     \<and> loop default_config s1 = Inr s'
     \<and> LogError (Fin (3 / 2)) \<in> set (new_events s1 s')
     \<and> last_value s' ! 0 = Fin 0 \<and> enabled s' \<and> timer s' = Some 100"
proof -
  have h1: "enabled active_state" by (simp add: active_state_eq)
  have h3: "length (axis default_config) \<le> length (last_value active_state)"
    by (simp add: active_state_eq default_config_simps)
  have h4: "truthy (Some ''x'')" by (simp add: truthy_def)
  have h5: "index (axis default_config) (Some ''x'') = Some 0" by (simp add: default_config_simps)
  have h6: "float_lt (Fin (3 / 2)) (Fin (- 1)) \<or> float_lt (Fin 1) (Fin (3 / 2))" by simp
  show ?thesis
    using out_of_range_command_logged [OF h1 default_interval h3 h4 h5 h6] by simp
qed

text \<open>
  As the specification states it, the write is discarded, the previous pending value is
  kept and no step command derived from \<open>v\<close> is sent. With \<open>0.5\<close> pending on \<open>'x'\<close>, writing
  \<open>1.5\<close> replaces it, and the next tick logs the error and then sends \<open>steps('x', 150)\<close>.
\<close>

theorem out_of_range_command_counterexample:
  "last_value half_pending ! 0 = Fin (1 / 2)
   \<and> last_value (final (set_last_value 0 (Fin (3 / 2)) half_pending)) ! 0 = Fin (3 / 2)
   \<and> new_events (final (set_last_value 0 (Fin (3 / 2)) half_pending))
        (final (loop default_config (final (set_last_value 0 (Fin (3 / 2)) half_pending))))
      = [TimerStart 100, LogError (Fin (3 / 2)), Steps (Some ''x'') (Fin 150)]"
proof -
  let ?s = "final (set_last_value 0 (Fin (3 / 2)) half_pending)"
  have s: "enabled ?s" "last_value ?s = [Fin (3 / 2), Fin 0, Fin 0]"
    by (simp_all add: half_pending_eq set_last_value_def final_def)
  show ?thesis
    unfolding default_tick [OF s]
    by (simp add: half_pending_eq set_last_value_def final_def new_events_def
        axis_events_three_halves)
qed

subsection \<open>C3: which commands send nothing\<close>




subsection \<open>C4: stopping twice\<close>

text \<open>
  Claim C4, as the code has it. \<open>stopLoop\<close> has no guard on \<open>enabled\<close>: every call stops
  the timer and calls \<open>stop\<close> on the hardware. After two calls in a row the loop is disabled,
  the timer is not running and the pending values are untouched, as after one call; but the
  second call is not a no-op, it issues a second stop command.
\<close>

theorem stop_twice:
  "\<not> enabled (stopLoop (stopLoop s))
   \<and> timer (stopLoop (stopLoop s)) = None
   \<and> last_value (stopLoop (stopLoop s)) = last_value s
   \<and> new_events s (stopLoop s) = [TimerStop, Stop]
   \<and> new_events s (stopLoop (stopLoop s)) = [TimerStop, Stop, TimerStop, Stop]
   \<and> stop_calls (new_events s (stopLoop s)) = 1
   \<and> stop_calls (new_events s (stopLoop (stopLoop s))) = 2
   \<and> stopLoop (stopLoop s) = (stopLoop s)\<lparr>trace := trace (stopLoop s) @ [TimerStop, Stop]\<rparr>"
  by (simp add: stopLoop_def emit_def new_events_def)

text \<open>
  As the specification states it, two calls produce exactly one stop command. They
  produce two.
\<close>

theorem stop_twice_counterexample:
  "stop_calls (new_events active_state (stopLoop (stopLoop active_state))) = 2
   \<and> stop_calls (new_events active_state (stopLoop (stopLoop active_state))) \<noteq> 1"
  by (simp add: active_state_eq stopLoop_def emit_def new_events_def)

subsection \<open>C5: nothing moves after a stop\<close>

text \<open>
  Claim C5. After \<open>stopLoop\<close>, whatever sequence of writes of pending values, ticks and
  further stops follows (anything but \<open>startLoop\<close> or a new activation), no \<open>steps\<close> call
  is made and the timer is never started: the loop stays disabled, the timer stays off, and a
  tick in any state reached this way returns the state unchanged.
\<close>

theorem no_steps_after_stop:
  assumes "StartLoop \<notin> set ops" and "Activate \<notin> set ops"
  shows "filter is_steps (new_events (stopLoop s) (run c ops (stopLoop s))) = []
         \<and> filter is_timer_start (new_events (stopLoop s) (run c ops (stopLoop s))) = []
         \<and> \<not> enabled (run c ops (stopLoop s))
         \<and> timer (run c ops (stopLoop s)) = None
         \<and> loop c (run c ops (stopLoop s)) = Inr (run c ops (stopLoop s))"
proof -
  have d: "\<not> enabled (stopLoop s) \<and> timer (stopLoop s) = None"
    by (simp add: stopLoop_def emit_def)
  obtain evs where e: "trace (run c ops (stopLoop s)) = trace (stopLoop s) @ evs"
      "filter is_steps evs = []" "filter is_timer_start evs = []"
      "\<not> enabled (run c ops (stopLoop s))" "timer (run c ops (stopLoop s)) = None"
    using disabled_run [OF d assms] by blast
  then show ?thesis by (simp add: new_events_def loop_def)
qed

theorem no_steps_after_stop_witness:
  "filter is_steps (new_events (stopLoop active_state)
      (run default_config [Write 0 (Fin (1 / 2)), Tick, Write 1 (Fin (- 1)), Tick, StopLoop, Tick]
         (stopLoop active_state))) = []
   \<and> \<not> enabled (run default_config [Write 0 (Fin (1 / 2)), Tick, Write 1 (Fin (- 1)), Tick, StopLoop, Tick]
         (stopLoop active_state))
   \<and> last_value (run default_config [Write 0 (Fin (1 / 2)), Tick, Write 1 (Fin (- 1)), Tick, StopLoop, Tick]
         (stopLoop active_state))
       = [Fin (1 / 2), Fin (- 1), Fin 0]"
proof -
  let ?ops = "[Write 0 (Fin (1 / 2)), Tick, Write 1 (Fin (- 1)), Tick, StopLoop, Tick]"
  have h1: "StartLoop \<notin> set ?ops" by simp
  have h2: "Activate \<notin> set ?ops" by simp
  have lv: "last_value (run default_config ?ops (stopLoop active_state))
       = [Fin (1 / 2), Fin (- 1), Fin 0]"
    by (simp add: active_state_eq stopLoop_def emit_def set_last_value_def final_def loop_def)
  show ?thesis
    using no_steps_after_stop [OF h1 h2, of active_state default_config] lv by simp
qed

subsection \<open>C6: when a tick re-arms the timer\<close>

text \<open>
  Claim C6, as the code has it. \<open>loop\<close> calls \<open>start_timer\<close> before \<open>move\<close>. In a tick
  executed while enabled, when the interval \<open>int(1000 / ui_frequency)\<close> can be computed,
  the timer is re-armed exactly once, as the first thing the tick does, before any axis is
  sampled, and nothing that follows in the tick calls the timer again, neither to start nor
  to stop it, whether \<open>move\<close> returns or raises. When the interval cannot be computed, the
  tick raises at once, with no timer call and no dispatch.
\<close>

theorem tick_rearms_timer_first:
  assumes "enabled s"
  shows "(timer_interval c = Inr ms \<longrightarrow>
            (\<exists>evs. new_events s (final (loop c s)) = TimerStart ms # evs
               \<and> filter is_timer_call evs = []))
         \<and> (timer_interval c = Inl e \<longrightarrow> loop c s = Inl (e, s))"
proof (intro conjI impI)
  assume i: "timer_interval c = Inr ms"
  obtain evs where e: "new_events s (final (loop c s)) = TimerStart ms # evs"
      "list_all (move_event c) evs"
    using loop_events [OF assms i] by blast
  then show "\<exists>evs. new_events s (final (loop c s)) = TimerStart ms # evs
               \<and> filter is_timer_call evs = []"
    using move_events_no_timer by blast
next
  assume "timer_interval c = Inl e"
  then show "loop c s = Inl (e, s)" using assms by (simp add: loop_def start_timer_Inl)
qed

text \<open>
  A tick that dispatches \<open>0.5\<close> on \<open>'x'\<close>, and a tick of the configuration with the tiny
  frequency, where \<open>1000 / ui_frequency\<close> is infinite and \<open>int\<close> raises.
\<close>

theorem tick_rearms_timer_first_witness:
  "timer_interval default_config = Inr 100
   \<and> (\<exists>evs. new_events half_pending (final (loop default_config half_pending)) = TimerStart 100 # evs
        \<and> evs = [Steps (Some ''x'') (Fin 50)] \<and> filter is_timer_call evs = [])
   \<and> timer_interval tiny_config = Inl OverflowError
   \<and> loop tiny_config half_pending
       = Inl (OverflowError, half_pending)"
proof -
  have h: "enabled half_pending" by (simp add: half_pending_eq)
  have s: "enabled half_pending" "last_value half_pending = [Fin (1 / 2), Fin 0, Fin 0]"
    by (simp_all add: half_pending_eq)
  have ev: "new_events half_pending (final (loop default_config half_pending))
      = [TimerStart 100, Steps (Some ''x'') (Fin 50)]"
    unfolding default_tick [OF s] axis_events_half by (simp add: final_def new_events_def)
  have a: "\<exists>evs. new_events half_pending (final (loop default_config half_pending)) = TimerStart 100 # evs
        \<and> filter is_timer_call evs = []"
    using tick_rearms_timer_first [OF h, of default_config 100] default_interval by blast
  have b: "loop tiny_config half_pending
       = Inl (OverflowError, half_pending)"
    using tick_rearms_timer_first
      [OF h, of tiny_config _ OverflowError]
      tiny_interval by blast
  show ?thesis using a b ev default_interval tiny_interval by simp
qed

text \<open>
  As the specification states it, the timer is re-armed only at the end of the tick,
  after the dispatch. With \<open>0.5\<close> pending on \<open>'x'\<close> the timer call precedes the \<open>steps\<close>
  call.
\<close>

theorem tick_rearms_before_move_counterexample:
  "new_events half_pending (final (loop default_config half_pending))
   = [TimerStart 100, Steps (Some ''x'') (Fin 50)]"
proof -
  have s: "enabled half_pending" "last_value half_pending = [Fin (1 / 2), Fin 0, Fin 0]"
    by (simp_all add: half_pending_eq)
  show ?thesis
    unfolding default_tick [OF s] axis_events_half
    by (simp add: final_def new_events_def)
qed

subsection \<open>C7: reading and resetting the pending value\<close>

text \<open>
  Claim C7 against the code. \<open>__init__\<close> creates the mutex \<open>threadlock\<close>, and no method
  ever locks it: no sequence of activations, writes, ticks, starts and stops contains a
  mutex call. So nothing keeps a write from falling between line 106 (the read) and line
  107 (the reset) of \<open>move\<close>. With \<open>0.5\<close> pending on \<open>'x'\<close>, let the tick read the slot, the
  input source write \<open>1.0\<close>, and the tick go on: it stores 0 over the \<open>1.0\<close> and sends 50
  steps. The command \<open>1.0\<close> is lost, which neither order of an atomic read-and-reset and
  the write allows: written before the tick, it is sent as 100 steps; written after, it
  stays pending.
\<close>

theorem read_reset_without_lock:
  "filter is_lock_call (new_events s (run c ops s)) = []
   \<and> read_last_value default_config (Some ''x'') half_pending = Inr (0, Fin (1 / 2))
   \<and> last_value (final (set_last_value 0 (Fin 1) half_pending)) = [Fin 1, Fin 0, Fin 0]
   \<and> last_value (final (reset_and_move default_config (Some ''x'') 0 (Fin (1 / 2))
        (final (set_last_value 0 (Fin 1) half_pending)))) = [Fin 0, Fin 0, Fin 0]
   \<and> new_events half_pending (final (reset_and_move default_config (Some ''x'') 0 (Fin (1 / 2))
        (final (set_last_value 0 (Fin 1) half_pending)))) = [Steps (Some ''x'') (Fin 50)]
   \<and> new_events half_pending (run default_config [Write 0 (Fin 1), Tick] half_pending)
        = [TimerStart 100, Steps (Some ''x'') (Fin 100)]
   \<and> last_value (run default_config [Tick, Write 0 (Fin 1)] half_pending) = [Fin 1, Fin 0, Fin 0]"
proof -
  obtain evs where e: "trace (run c ops s) = trace s @ evs" "list_all (addressed_ok c) evs"
    using run_trace by blast
  have "filter is_lock_call evs = []"
    using e(2) addressed_ok_no_lock [of c] by (induction evs) auto
  then have nolock: "filter is_lock_call (new_events s (run c ops s)) = []"
    using e(1) by (simp add: new_events_def)
  have rd: "read_last_value default_config (Some ''x'') half_pending = Inr (0, Fin (1 / 2))"
    by (simp add: read_last_value_def default_config_simps half_pending_eq)
  let ?w = "final (set_last_value 0 (Fin 1) half_pending)"
  have w: "enabled ?w" "last_value ?w = [Fin 1, Fin 0, Fin 0]" "trace ?w = trace half_pending"
    by (simp_all add: half_pending_eq set_last_value_def final_def)
  have rm: "reset_and_move default_config (Some ''x'') 0 (Fin (1 / 2)) ?w =
      Inr (?w\<lparr>last_value := [Fin 0, Fin 0, Fin 0],
               trace := trace ?w @ [Steps (Some ''x'') (Fin 50)]\<rparr>)"
    using w(2) by (simp add: reset_and_move_def move_axis_ok [OF default_ratio] axis_events_half)
  have lost: "last_value (final (reset_and_move default_config (Some ''x'') 0 (Fin (1 / 2)) ?w))
        = [Fin 0, Fin 0, Fin 0]"
      "new_events half_pending (final (reset_and_move default_config (Some ''x'') 0 (Fin (1 / 2)) ?w))
        = [Steps (Some ''x'') (Fin 50)]"
    unfolding rm using w(3) by (simp_all add: final_def new_events_def)
  have rb: "run default_config [Write 0 (Fin 1), Tick] half_pending = final (loop default_config ?w)"
    by simp
  have before: "new_events half_pending (run default_config [Write 0 (Fin 1), Tick] half_pending)
        = [TimerStart 100, Steps (Some ''x'') (Fin 100)]"
    unfolding rb default_tick [OF w(1) w(2)] axis_events_one
    using w(3) by (simp add: final_def new_events_def)
  have h: "enabled half_pending" "last_value half_pending = [Fin (1 / 2), Fin 0, Fin 0]"
    by (simp_all add: half_pending_eq)
  have ra: "run default_config [Tick, Write 0 (Fin 1)] half_pending
        = final (set_last_value 0 (Fin 1) (final (loop default_config half_pending)))"
    by simp
  have after: "last_value (run default_config [Tick, Write 0 (Fin 1)] half_pending) = [Fin 1, Fin 0, Fin 0]"
    unfolding ra default_tick [OF h]
    by (simp add: final_def set_last_value_def)
  show ?thesis using nolock rd w(2) lost before after by simp
qed

subsection \<open>C8: axis slots configured as None\<close>

text \<open>
  Claim C8. Whatever the configuration, the starting state (so whatever is buffered) and
  the sequence of activations, writes, ticks, starts and stops, every \<open>frequency\<close>,
  \<open>voltage\<close> and \<open>steps\<close> call is addressed to a configured entry of the axis tuple, never
  to \<open>None\<close>; and a tick leaves the value buffered in the slot of a \<open>None\<close> entry as it
  is, without reading it.
\<close>

theorem unconfigured_axis_never_addressed:
  "(\<forall>e \<in> set (new_events s (run c ops s)).
      \<forall>a. device_axis e = Some a \<longrightarrow> a \<noteq> None \<and> truthy a \<and> a \<in> set (axis c))
   \<and> (\<forall>k < length (axis c). \<not> truthy (axis c ! k) \<longrightarrow>
         last_value (final (loop c s)) ! k = last_value s ! k)"
proof -
  obtain evs where e: "trace (run c ops s) = trace s @ evs" "list_all (addressed_ok c) evs"
    using run_trace by blast
  have "\<forall>e \<in> set evs. \<forall>a. device_axis e = Some a \<longrightarrow> a \<noteq> None \<and> truthy a \<and> a \<in> set (axis c)"
    using e(2) addressed_okD [of c] unfolding list_all_iff by blast
  then show ?thesis using e(1) loop_slot by (simp add: new_events_def)
qed

theorem unconfigured_axis_never_addressed_witness:
  "new_events init_state
     (run default_config [Activate, Write 2 (Fin (1 / 2)), Write 0 (Fin (1 / 2)), Tick] init_state)
     = [Frequency (Some ''x'') (Fin 1000), Voltage (Some ''x'') (Fin 40),
        Frequency (Some ''y'') (Fin 1000), Voltage (Some ''y'') (Fin 40),
        TimerStart 100, TimerStart 100, Steps (Some ''x'') (Fin 50)]
   \<and> truthy (Some ''x'') \<and> Some ''x'' \<in> set (axis default_config)
   \<and> truthy (Some ''y'') \<and> Some ''y'' \<in> set (axis default_config)
   \<and> axis default_config ! 2 = None
   \<and> last_value (final (loop default_config (final (set_last_value 2 (Fin (1 / 2)) active_state)))) ! 2
       = Fin (1 / 2)"
proof -
  let ?ops = "[Activate, Write 2 (Fin (1 / 2)), Write 0 (Fin (1 / 2)), Tick]"
  let ?s = "final (set_last_value 2 (Fin (1 / 2)) active_state)"
  have act: "final (on_activate default_config init_state) = active_state"
    by (simp add: active_state_def)
  let ?t = "final (set_last_value 0 (Fin (1 / 2)) ?s)"
  have t: "enabled ?t" "last_value ?t = [Fin (1 / 2), Fin 0, Fin (1 / 2)]"
    by (simp_all add: active_state_eq set_last_value_def final_def)
  have rn: "run default_config ?ops init_state = final (loop default_config ?t)"
    by (simp add: act)
  have ev: "new_events init_state (run default_config ?ops init_state)
     = [Frequency (Some ''x'') (Fin 1000), Voltage (Some ''x'') (Fin 40),
        Frequency (Some ''y'') (Fin 1000), Voltage (Some ''y'') (Fin 40),
        TimerStart 100, TimerStart 100, Steps (Some ''x'') (Fin 50)]"
    unfolding rn default_tick [OF t] axis_events_half
    by (simp add: final_def new_events_def init_state_def active_state_eq set_last_value_def)
  have addr: "\<forall>e \<in> set (new_events init_state (run default_config ?ops init_state)).
      \<forall>a. device_axis e = Some a \<longrightarrow> a \<noteq> None \<and> truthy a \<and> a \<in> set (axis default_config)"
    using unconfigured_axis_never_addressed [of init_state default_config ?ops] by blast
  have x: "truthy (Some ''x'') \<and> Some ''x'' \<in> set (axis default_config)"
    and y: "truthy (Some ''y'') \<and> Some ''y'' \<in> set (axis default_config)"
    using addr unfolding ev by simp_all
  have slot: "\<forall>k < length (axis default_config). \<not> truthy (axis default_config ! k) \<longrightarrow>
      last_value (final (loop default_config ?s)) ! k = last_value ?s ! k"
    using unconfigured_axis_never_addressed [of ?s default_config "[]"] by blast
  have k: "(2::nat) < length (axis default_config)" "\<not> truthy (axis default_config ! 2)"
    "axis default_config ! 2 = None"
    by (simp_all add: default_config_simps truthy_def)
  have w: "last_value ?s ! 2 = Fin (1 / 2)"
    by (simp add: active_state_eq set_last_value_def final_def)
  have "last_value (final (loop default_config ?s)) ! 2 = Fin (1 / 2)"
    using slot k(1) k(2) w by simp
  then show ?thesis using ev x y k(3) by simp
qed

subsection \<open>C9: activation starts the loop\<close>

text \<open>
  Claim C9, as the code has it. \<open>on_activate\<close> calls \<open>frequency\<close> and \<open>voltage\<close> for each
  configured axis, in order, then sets \<open>enabled\<close> with no condition and calls
  \<open>start_timer\<close>. When the interval \<open>int(1000 / ui_frequency)\<close> can be computed, the timer
  is armed with it and \<open>on_activate\<close> returns, so that the tick the timer fires is not idle:
  it re-arms the timer in turn. When it cannot (a zero frequency, an infinite or undefined
  quotient), \<open>on_activate\<close> raises, with the loop enabled and the timer not armed.
\<close>

theorem activation_starts_loop:
  "enabled (final (on_activate c s))
   \<and> (timer_interval c = Inr ms \<longrightarrow>
        (\<exists>s'. on_activate c s = Inr s' \<and> enabled s' \<and> timer s' = Some ms
           \<and> new_events s s' = setup_calls c (axis c) @ [TimerStart ms]
           \<and> (\<exists>evs. new_events s' (final (loop c s')) = TimerStart ms # evs)))
   \<and> (timer_interval c = Inl e \<longrightarrow>
        (\<exists>s'. on_activate c s = Inl (e, s') \<and> enabled s' \<and> timer s' = None
           \<and> new_events s s' = setup_calls c (axis c)))"
proof (intro conjI impI)
  show "enabled (final (on_activate c s))"
    by (cases "timer_interval c")
      (simp_all add: on_activate_def startLoop_def start_timer_Inl start_timer_Inr final_def
        setup_axis_def setup_axes_calls)
next
  assume i: "timer_interval c = Inr ms"
  let ?s' = "s\<lparr>enabled := True, timer := Some ms,
                trace := trace s @ setup_calls c (axis c) @ [TimerStart ms]\<rparr>"
  have a: "on_activate c s = Inr ?s'"
    by (simp add: on_activate_def startLoop_def start_timer_Inr [OF i] setup_axis_def
        setup_axes_calls)
  have en: "enabled ?s'" by simp
  obtain evs where "new_events ?s' (final (loop c ?s')) = TimerStart ms # evs"
    using loop_events [OF en i] by blast
  then have "\<exists>evs. new_events ?s' (final (loop c ?s')) = TimerStart ms # evs" by blast
  moreover have "new_events s ?s' = setup_calls c (axis c) @ [TimerStart ms]"
    by (simp add: new_events_def)
  moreover have "timer ?s' = Some ms" by simp
  ultimately show "\<exists>s'. on_activate c s = Inr s' \<and> enabled s' \<and> timer s' = Some ms
           \<and> new_events s s' = setup_calls c (axis c) @ [TimerStart ms]
           \<and> (\<exists>evs. new_events s' (final (loop c s')) = TimerStart ms # evs)"
    using a en by blast
next
  assume i: "timer_interval c = Inl e"
  let ?s' = "s\<lparr>enabled := True, timer := None, trace := trace s @ setup_calls c (axis c)\<rparr>"
  have a: "on_activate c s = Inl (e, ?s')"
    by (simp add: on_activate_def startLoop_def start_timer_Inl [OF i] setup_axis_def
        setup_axes_calls)
  moreover have "new_events s ?s' = setup_calls c (axis c)" by (simp add: new_events_def)
  moreover have "enabled ?s'" "timer ?s' = None" by simp_all
  ultimately show "\<exists>s'. on_activate c s = Inl (e, s') \<and> enabled s' \<and> timer s' = None
           \<and> new_events s s' = setup_calls c (axis c)"
    by blast
qed

theorem activation_starts_loop_witness:
  "timer_interval default_config = Inr 100
   \<and> (\<exists>s'. on_activate default_config init_state = Inr s' \<and> enabled s' \<and> timer s' = Some 100
        \<and> new_events init_state s' =
            [Frequency (Some ''x'') (Fin 1000), Voltage (Some ''x'') (Fin 40),
             Frequency (Some ''y'') (Fin 1000), Voltage (Some ''y'') (Fin 40), TimerStart 100])
   \<and> timer_interval tiny_config = Inl OverflowError
   \<and> (\<exists>s'. on_activate tiny_config init_state
              = Inl (OverflowError, s')
        \<and> enabled s' \<and> timer s' = None)"
proof -
  have c: "setup_calls default_config (axis default_config) =
         [Frequency (Some ''x'') (Fin 1000), Voltage (Some ''x'') (Fin 40),
          Frequency (Some ''y'') (Fin 1000), Voltage (Some ''y'') (Fin 40)]"
    by (simp add: default_config_simps truthy_def)
  have a: "\<exists>s'. on_activate default_config init_state = Inr s' \<and> enabled s' \<and> timer s' = Some 100
        \<and> new_events init_state s' =
            [Frequency (Some ''x'') (Fin 1000), Voltage (Some ''x'') (Fin 40),
             Frequency (Some ''y'') (Fin 1000), Voltage (Some ''y'') (Fin 40), TimerStart 100]"
    using activation_starts_loop [of default_config init_state 100] default_interval c by auto
  have b: "\<exists>s'. on_activate tiny_config init_state
              = Inl (OverflowError, s')
        \<and> enabled s' \<and> timer s' = None"
    using activation_starts_loop
      [of tiny_config init_state _ OverflowError]
      tiny_interval by blast
  show ?thesis using a b default_interval tiny_interval by simp
qed

text \<open>
  As the specification states it, activation arms the timer whatever the configuration.
  With the positive frequency \<open>2 ** -1020\<close> the quotient overflows and \<open>int\<close> raises
  \<open>OverflowError\<close>; with the frequency 0 the division raises. In both cases the axes have
  been configured, the loop is enabled, and the timer is not armed.
\<close>

theorem activation_without_timer_counterexample:
  "on_activate tiny_config init_state
     = Inl (OverflowError,
         \<lparr>enabled = True, timer = None, last_value = [Fin 0, Fin 0, Fin 0],
          trace = [Frequency (Some ''x'') (Fin 1000), Voltage (Some ''x'') (Fin 40),
                   Frequency (Some ''y'') (Fin 1000), Voltage (Some ''y'') (Fin 40)]\<rparr>)
   \<and> on_activate zero_config init_state
     = Inl (ZeroDivisionError,
         \<lparr>enabled = True, timer = None, last_value = [Fin 0, Fin 0, Fin 0],
          trace = [Frequency (Some ''x'') (Fin 1000), Voltage (Some ''x'') (Fin 40),
                   Frequency (Some ''y'') (Fin 1000), Voltage (Some ''y'') (Fin 40)]\<rparr>)"
proof -
  show ?thesis
    by (simp add: on_activate_def startLoop_def start_timer_Inl [OF tiny_interval]
        start_timer_Inl [OF zero_interval] setup_axis_def setup_axes_calls init_state_def
        tiny_config_simps zero_config_simps truthy_def)
qed

subsection \<open>C10: the joystick axes\<close>

text \<open>
  Claim C10 against the code. \<open>get_state\<close> reads \<open>wButtons\<close> and the thumbstick fields
  on the \<open>XINPUT_STATE\<close> structure, whose only fields are \<open>dwPacketNumber\<close> and
  \<open>Gamepad\<close>: the first read, at line 103, raises \<open>AttributeError\<close>, on every call and
  whatever the gamepad holds. No division by 32767 is reached and no axis value is returned.
\<close>

theorem get_state_raises:
  "get_state st = Inl AttributeError
   \<and> state_attr st ''wButtons'' = Inl AttributeError
   \<and> state_attr st ''sThumbLX'' = Inl AttributeError"
  by (simp add: get_state_def state_field_value_def state_attr_def)

end
